theory Spec2Isabelle
  imports Complex_Main
begin

section \<open>JavaScript values\<close>

text \<open>
  The functions of \<^verbatim>\<open>index.js\<close> are untyped: they dispatch on \<^verbatim>\<open>typeof\<close> and
  \<^verbatim>\<open>instanceof\<close>. The values they are given are modelled by one datatype.

  A string is a list of UTF-16 code units in the range U+0000..U+00FF, one \<^typ>\<open>char\<close>
  each, so that \<^verbatim>\<open>s.length\<close> is \<^term>\<open>length s\<close>.

  An object is the list of its own enumerable properties in the order
  \<^verbatim>\<open>Object.keys\<close> lists them; its keys are distinct. Class-based objects
  (\<^verbatim>\<open>new String\<close>, \<^verbatim>\<open>ArrayBuffer\<close>, functions) are not values of the model.

  A finite number is given in decimal, which is how \<^verbatim>\<open>Number.prototype.toString\<close>
  reads it: \<open>Dec neg s e\<close> is the number \<open>s * 10 ^ e\<close>, negated if \<open>neg\<close>. So \<open>1.2345\<close>
  is \<open>Dec False 12345 (- 4)\<close>, and a natural number \<open>n\<close>, such as the length of an
  array, is \<open>Dec False n 0\<close>.
\<close>

datatype jsnum = Dec bool nat int | NaN | Infinity bool

datatype jsval =
    JUndef
  | JNull
  | JBool bool
  | JNum jsnum
  | JStr string
  | JArr "jsval list"
  | JObj "(string \<times> jsval) list"

datatype error = TypeError

text \<open>\<^verbatim>\<open>isFinite(n)\<close> for a number \<open>n\<close>.\<close>

fun isFinite :: "jsnum \<Rightarrow> bool" where
  "isFinite (Dec neg s e) = True"
| "isFinite NaN = False"
| "isFinite (Infinity neg) = False"

text \<open>The decimal digits of a natural number: \<^verbatim>\<open>i.toString()\<close> for an array index \<open>i\<close>.\<close>

fun natToString :: "nat \<Rightarrow> string" where
  "natToString n =
     (if n < 10 then [''0123456789'' ! n]
      else natToString (n div 10) @ [''0123456789'' ! (n mod 10)])"

declare natToString.simps [simp del]

text \<open>
  \<^verbatim>\<open>n.toString()\<close>, as ECMAScript's Number::toString defines it. The number is
  written \<open>s * 10 ^ (n - k)\<close> with \<open>s\<close> of \<open>k\<close> digits \<open>ds\<close>, as few as possible
  (\<open>stripZeros\<close> moves the trailing zeros of \<open>s\<close> into the exponent). The digits are
  followed by zeros if \<open>k \<le> n \<le> 21\<close>, hold the decimal point if \<open>0 < n \<le> 21\<close>,
  follow \<open>0.\<close> and zeros if \<open>-6 < n \<le> 0\<close>, and exponential notation is used
  otherwise.
\<close>

function stripZeros :: "nat \<Rightarrow> int \<Rightarrow> nat \<times> int" where
  "stripZeros s e = (if 0 < s \<and> s mod 10 = 0 then stripZeros (s div 10) (e + 1) else (s, e))"
  by pat_completeness auto
termination
  by (relation "measure (\<lambda>(s, e). s)") auto

declare stripZeros.simps [simp del]

definition numToString :: "jsnum \<Rightarrow> string" where
  "numToString x =
     (case x of
        NaN \<Rightarrow> ''NaN''
      | Infinity neg \<Rightarrow> (if neg then ''-Infinity'' else ''Infinity'')
      | Dec neg s0 e0 \<Rightarrow>
          (if s0 = 0 then ''0''
           else
             (let (s, e) = stripZeros s0 e0;
                  ds = natToString s;
                  k = int (length ds);
                  n = e + k;
                  ex = (if n - 1 < 0 then ''-'' else ''+'') @ natToString (nat (abs (n - 1)));
                  body =
                    (if k \<le> n \<and> n \<le> 21 then ds @ replicate (nat (n - k)) (CHR ''0'')
                     else if 0 < n \<and> n \<le> 21 then take (nat n) ds @ ''.'' @ drop (nat n) ds
                     else if - 6 < n \<and> n \<le> 0 then ''0.'' @ replicate (nat (- n)) (CHR ''0'') @ ds
                     else if k = 1 then ds @ ''e'' @ ex
                     else take 1 ds @ ''.'' @ drop 1 ds @ ''e'' @ ex)
              in (if neg then ''-'' else '''') @ body)))"

subsection \<open>Strings\<close>

text \<open>
  \<^verbatim>\<open>s.trim()\<close> removes white space and line terminators from both ends; among the
  code units of the model these are U+0009..U+000D, U+0020 and U+00A0.
\<close>

definition isWhiteSpace :: "char \<Rightarrow> bool" where
  "isWhiteSpace c = ((of_char c :: nat) \<in> {9, 10, 11, 12, 13, 32, 160})"

definition trim :: "string \<Rightarrow> string" where
  "trim s = rev (dropWhile isWhiteSpace (rev (dropWhile isWhiteSpace s)))"

text \<open>
  \<^verbatim>\<open>s.split(d)\<close> for a string separator \<open>d\<close>. \<open>splitLoop d cur s\<close> scans \<open>s\<close> with the
  piece \<open>cur\<close> read so far. An empty separator splits between all code units, and
  the empty string then has no piece at all.
\<close>

function splitLoop :: "string \<Rightarrow> string \<Rightarrow> string \<Rightarrow> string list" where
  "splitLoop d cur [] = [cur]"
| "splitLoop d cur (c # s) =
     (if d \<noteq> [] \<and> take (length d) (c # s) = d
      then cur # splitLoop d [] (drop (length d) (c # s))
      else splitLoop d (cur @ [c]) s)"
  by pat_completeness auto
termination
  by (relation "measure (\<lambda>(d, cur, s). length s)") auto

definition split :: "string \<Rightarrow> string \<Rightarrow> string list" where
  "split s d = (if d = [] then map (\<lambda>c. [c]) s else splitLoop d [] s)"

text \<open>\<^verbatim>\<open>a.join(d)\<close> for an array of strings.\<close>

fun join :: "string list \<Rightarrow> string \<Rightarrow> string" where
  "join [] d = []"
| "join [x] d = x"
| "join (x # y # ys) d = x @ d @ join (y # ys) d"

subsection \<open>Objects\<close>

text \<open>
  \<^verbatim>\<open>Object.defineProperty(object, key, {value: value, enumerable: true, ...})\<close>:
  an existing property keeps its place and takes the value, a new one comes last.
\<close>

fun addObjectProperty :: "(string \<times> jsval) list \<Rightarrow> string \<Rightarrow> jsval \<Rightarrow> (string \<times> jsval) list" where
  "addObjectProperty [] key v = [(key, v)]"
| "addObjectProperty ((k, w) # obj) key v =
     (if k = key then (k, v) # obj else (k, w) # addObjectProperty obj key v)"

text \<open>The index keys and entries of an array: \<open>0\<close>, \<open>1\<close>, ... in decimal.\<close>

definition arrayEntries :: "jsval list \<Rightarrow> (string \<times> jsval) list" where
  "arrayEntries xs = zip (map natToString [0..<length xs]) xs"

text \<open>
  \<^verbatim>\<open>Object.entries(o)\<close>; \<^verbatim>\<open>Object.keys(o)\<close> is its first components. Both raise a
  TypeError on \<^verbatim>\<open>null\<close> and \<^verbatim>\<open>undefined\<close>; a string lists its code units.
\<close>

fun objectEntries :: "jsval \<Rightarrow> error + (string \<times> jsval) list" where
  "objectEntries JUndef = Inl TypeError"
| "objectEntries JNull = Inl TypeError"
| "objectEntries (JBool b) = Inr []"
| "objectEntries (JNum n) = Inr []"
| "objectEntries (JStr s) = Inr (arrayEntries (map (\<lambda>c. JStr [c]) s))"
| "objectEntries (JArr xs) = Inr (arrayEntries xs)"
| "objectEntries (JObj kvs) = Inr kvs"

definition objectKeys :: "jsval \<Rightarrow> error + string list" where
  "objectKeys v = (case objectEntries v of Inl e \<Rightarrow> Inl e | Inr kvs \<Rightarrow> Inr (map fst kvs))"

text \<open>
  \<open>isObject\<close> is \<^verbatim>\<open>typeof o === 'object' && o instanceof Object\<close> and \<open>isArray\<close> is
  \<^verbatim>\<open>typeof a === 'object' && a instanceof Array\<close>: \<^verbatim>\<open>null\<close> has the type but is no
  instance, and an array is an instance of both.
\<close>

fun isObject :: "jsval \<Rightarrow> bool" where
  "isObject (JArr xs) = True"
| "isObject (JObj kvs) = True"
| "isObject v = False"

fun isArray :: "jsval \<Rightarrow> bool" where
  "isArray (JArr xs) = True"
| "isArray v = False"

section \<open>The size accounting engine\<close>

text \<open>
  \<open>utf8Length s\<close> is what \<^verbatim>\<open>byteCount\<close> computes for a string: the length of
  \<^verbatim>\<open>encodeURIComponent(s)\<close> with each escaped triplet counted once, which is the
  number of UTF-8 bytes: one for a code unit below U+0080, two for the others of the
  model.
\<close>

definition utf8Length :: "string \<Rightarrow> nat" where
  "utf8Length s = sum_list (map (\<lambda>c. if (of_char c :: nat) < 128 then 1 else 2) s)"

fun byteCount :: "jsval \<Rightarrow> nat option" where
  "byteCount (JStr s) = Some (utf8Length s)"
| "byteCount v = None"

text \<open>
  \<^verbatim>\<open>x.toFixed(2) * 1\<close> for a number \<open>x\<close> below \<open>10^21\<close>: of the multiples of one
  hundredth nearest to \<open>x\<close>, the larger one. \<open>toKilobyte\<close> is given a byte total, a
  natural number; \<open>n / 1024\<close> is exact.
\<close>

definition toFixed2 :: "rat \<Rightarrow> rat" where
  "toFixed2 x = of_int \<lfloor>x * 100 + 1 / 2\<rfloor> / 100"

definition toKilobyte :: "nat \<Rightarrow> rat" where
  "toKilobyte n = toFixed2 (of_nat n / 1024)"

definition stringSizeCount :: "string \<Rightarrow> string \<Rightarrow> nat" where
  "stringSizeCount name s = length name + utf8Length s"

text \<open>
  The loop of \<^verbatim>\<open>numberSizeCount\<close>:
  \<^verbatim>\<open>for (i; i <= fpartLength; i += 2) { size += 2 }\<close>.
\<close>

function numberSizeLoop :: "nat \<Rightarrow> nat \<Rightarrow> nat \<Rightarrow> nat" where
  "numberSizeLoop i fpartLength sz =
     (if i \<le> fpartLength then numberSizeLoop (i + 2) fpartLength (sz + 2) else sz)"
  by pat_completeness auto
termination
  by (relation "measure (\<lambda>(i, fpartLength, sz). Suc fpartLength - i)") auto

declare numberSizeLoop.simps [simp del]

definition numberSizeCount :: "string \<Rightarrow> jsnum \<Rightarrow> nat" where
  "numberSizeCount name n =
     (let sz = length name + 1
      in if CHR ''.'' \<in> set (numToString n)
         then (let fpart = split (numToString n) ''.'' ! 1;
                   fpartLength = length fpart
               in numberSizeLoop 0 fpartLength sz)
         else sz)"

fun nullBoolSizeCount :: "string \<Rightarrow> jsval \<Rightarrow> nat" where
  "nullBoolSizeCount name JNull = length name + 1"
| "nullBoolSizeCount name (JBool b) = length name + 1"
| "nullBoolSizeCount name nb = 0"

text \<open>
  \<^verbatim>\<open>getObjectSize(name, o)\<close>, \<^verbatim>\<open>objectSizeCount(name, o)\<close> and
  \<^verbatim>\<open>arraySizeCount(name, a)\<close>. The loops \<^verbatim>\<open>keys.map((k) => { size += ... })\<close> and
  \<^verbatim>\<open>a.map((e) => { size += ... })\<close> carry the running \<open>size\<close>.

  \<open>getObjectSize\<close> is not exported. \<^verbatim>\<open>itemSizeCount\<close> and \<^verbatim>\<open>objectSizeCount\<close> call it
  with a property key and the property's value; \<^verbatim>\<open>arraySizeCount\<close> calls
  \<^verbatim>\<open>getObjectSize(e)\<close>, with the list element as \<open>name\<close> and no \<open>o\<close>, so its first
  parameter is a value. With \<open>o\<close> undefined no case of the \<^verbatim>\<open>switch\<close> applies and
  \<open>name\<close> is not read. The cases that read \<^verbatim>\<open>name.length\<close> are those of a string
  \<open>name\<close>, the only ones the module's calls reach. The branches behind
  \<^verbatim>\<open>o instanceof Object\<close> other than \<^verbatim>\<open>o === null\<close> are for class-based objects.
\<close>

fun getObjectSize :: "jsval \<Rightarrow> jsval \<Rightarrow> nat"
and objectSizeLoop :: "nat \<Rightarrow> (string \<times> jsval) list \<Rightarrow> nat"
and arraySizeLoop :: "nat \<Rightarrow> jsval list \<Rightarrow> nat" where
  "getObjectSize name JUndef = 0"
| "getObjectSize (JStr name) (JStr s) = stringSizeCount name s"
| "getObjectSize (JStr name) (JNum n) = (if isFinite n then numberSizeCount name n else 0)"
| "getObjectSize (JStr name) (JBool b) = nullBoolSizeCount name (JBool b)"
| "getObjectSize (JStr name) (JArr a) = arraySizeLoop (length name + 3) a"
| "getObjectSize (JStr name) (JObj kvs) = objectSizeLoop (length name + 3) kvs"
| "getObjectSize (JStr name) JNull = nullBoolSizeCount name JNull"
| "objectSizeLoop sz [] = sz"
| "objectSizeLoop sz ((k, v) # kvs) = objectSizeLoop (sz + (3 + getObjectSize (JStr k) v)) kvs"
| "arraySizeLoop sz [] = sz"
| "arraySizeLoop sz (e # es) = arraySizeLoop (sz + (3 + getObjectSize e JUndef)) es"

definition objectSizeCount :: "string \<Rightarrow> (string \<times> jsval) list \<Rightarrow> nat" where
  "objectSizeCount name kvs = objectSizeLoop (length name + 3) kvs"

definition arraySizeCount :: "string \<Rightarrow> jsval list \<Rightarrow> nat" where
  "arraySizeCount name a = arraySizeLoop (length name + 3) a"

text \<open>
  \<^verbatim>\<open>itemSizeCount(item)\<close>: \<open>None\<close> is \<^verbatim>\<open>undefined\<close>. An array is an instance of
  \<^verbatim>\<open>Object\<close> too, and its keys are its indices.
\<close>

fun itemSizeLoop :: "nat \<Rightarrow> (string \<times> jsval) list \<Rightarrow> nat" where
  "itemSizeLoop sz [] = sz"
| "itemSizeLoop sz ((k, v) # kvs) = itemSizeLoop (sz + getObjectSize (JStr k) v) kvs"

definition itemSizeCount :: "jsval \<Rightarrow> int option" where
  "itemSizeCount item =
     (if isObject item
      then (case objectEntries item of
              Inl e \<Rightarrow> None
            | Inr kvs \<Rightarrow>
                (if length kvs > 0 then Some \<lceil>toKilobyte (itemSizeLoop 0 kvs)\<rceil> else None))
      else None)"

section \<open>The attribute encoder\<close>

text \<open>
  \<^verbatim>\<open>createAttribute(null)\<close>: of the \<^verbatim>\<open>'object'\<close> case only \<^verbatim>\<open>o === null\<close> applies, it
  adds \<^verbatim>\<open>NULL: true\<close>, and the last line returns \<open>newProperty\<close>.
\<close>

definition nullAttribute :: jsval where
  "nullAttribute = JObj (addObjectProperty [] ''NULL'' (JBool True))"

text \<open>
  \<^verbatim>\<open>createAttribute(o)\<close>. Each equation is one case of the \<^verbatim>\<open>switch\<close> followed by the
  last line, \<^verbatim>\<open>Object.keys(newProperty).length > 0 ? newProperty : createAttribute(null)\<close>.
  The array case always adds \<open>L\<close>. In the object case \<open>newProperty\<close> takes the
  properties of \<^verbatim>\<open>object2Map(o)\<close>: \<open>M\<close> with the encoded properties of \<open>o\<close> when there
  is one, and those of \<^verbatim>\<open>createAttribute(null)\<close> otherwise. \<open>createAttribute\<close> and
  \<open>object2Map\<close> call each other; \<open>object2Map\<close> is defined below, and
  \<open>createAttribute_object2Map\<close> relates the two.
\<close>

fun createAttribute :: "jsval \<Rightarrow> jsval" where
  "createAttribute (JStr s) =
     (if length (trim s) > 0 then JObj (addObjectProperty [] ''S'' (JStr (trim s)))
      else nullAttribute)"
| "createAttribute (JNum n) =
     (if isFinite n then JObj (addObjectProperty [] ''N'' (JStr (numToString n)))
      else nullAttribute)"
| "createAttribute (JBool b) = JObj (addObjectProperty [] ''BOOL'' (JBool b))"
| "createAttribute (JArr xs) = JObj (addObjectProperty [] ''L'' (JArr (map createAttribute xs)))"
| "createAttribute (JObj kvs) =
     (let mapValue = map (\<lambda>(k, v). (k, createAttribute v)) kvs
      in if length mapValue > 0 then JObj [(''M'', JObj mapValue)] else nullAttribute)"
| "createAttribute JNull = nullAttribute"
| "createAttribute JUndef = nullAttribute"

text \<open>
  \<^verbatim>\<open>object2Map(o)\<close>. The loop defines on \<open>mapValue\<close> one property for each key of
  \<open>o\<close>, if the encoded value is truthy (an object always is). \<^verbatim>\<open>Object.keys\<close> raises
  on \<^verbatim>\<open>null\<close>, whose type is \<^verbatim>\<open>'object'\<close> as well.
\<close>

fun truthy :: "jsval \<Rightarrow> bool" where
  "truthy JUndef = False"
| "truthy JNull = False"
| "truthy (JBool b) = b"
| "truthy (JNum n) = (case n of Dec neg s e \<Rightarrow> s \<noteq> 0 | NaN \<Rightarrow> False | Infinity neg \<Rightarrow> True)"
| "truthy (JStr s) = (s \<noteq> [])"
| "truthy (JArr xs) = True"
| "truthy (JObj kvs) = True"

fun object2MapLoop :: "(string \<times> jsval) list \<Rightarrow> (string \<times> jsval) list \<Rightarrow> (string \<times> jsval) list" where
  "object2MapLoop mapValue [] = mapValue"
| "object2MapLoop mapValue ((k, property) # kvs) =
     (let newProperty = createAttribute property
      in object2MapLoop (if truthy newProperty then addObjectProperty mapValue k newProperty
                         else mapValue) kvs)"

definition object2Map :: "jsval \<Rightarrow> error + jsval" where
  "object2Map v =
     (if (case v of JNull \<Rightarrow> True | JArr xs \<Rightarrow> True | JObj kvs \<Rightarrow> True | _ \<Rightarrow> False)
      then (case objectEntries v of
              Inl e \<Rightarrow> Inl e
            | Inr kvs \<Rightarrow>
                (let mapValue = object2MapLoop [] kvs
                 in if length mapValue > 0 then Inr (JObj [(''M'', JObj mapValue)])
                    else Inr (createAttribute JNull)))
      else Inr (createAttribute JNull))"

text \<open>The raw byte total of a record: the sum of \<open>getObjectSize\<close> over its properties.\<close>

definition rawBytes :: "(string \<times> jsval) list \<Rightarrow> nat" where
  "rawBytes kvs = sum_list (map (\<lambda>(k, v). getObjectSize (JStr k) v) kvs)"

section \<open>Own properties\<close>

text \<open>
  The own properties of a value that is neither \<^verbatim>\<open>null\<close> nor \<^verbatim>\<open>undefined\<close>: those of
  \<^verbatim>\<open>Object.entries\<close>, and \<open>length\<close> for an array and a string.
\<close>

fun ownProperties :: "jsval \<Rightarrow> (string \<times> jsval) list" where
  "ownProperties (JObj kvs) = kvs"
| "ownProperties (JArr xs) = arrayEntries xs @ [(''length'', JNum (Dec False (length xs) 0))]"
| "ownProperties (JStr s) =
     arrayEntries (map (\<lambda>c. JStr [c]) s) @ [(''length'', JNum (Dec False (length s) 0))]"
| "ownProperties v = []"

text \<open>
  The method call \<^verbatim>\<open>v.hasOwnProperty(key)\<close>. It raises a TypeError on \<^verbatim>\<open>null\<close> and
  \<^verbatim>\<open>undefined\<close>, and on an object with an own property named \<open>hasOwnProperty\<close>: that
  property is found in place of the inherited method, and no value of the model can
  be called.
\<close>

fun hasOwnProperty :: "jsval \<Rightarrow> string \<Rightarrow> error + bool" where
  "hasOwnProperty JUndef key = Inl TypeError"
| "hasOwnProperty JNull key = Inl TypeError"
| "hasOwnProperty (JObj kvs) key =
     (if ''hasOwnProperty'' \<in> set (map fst kvs) then Inl TypeError
      else Inr (key \<in> set (map fst kvs)))"
| "hasOwnProperty v key = Inr (key \<in> set (map fst (ownProperties v)))"

text \<open>
  The property read \<^verbatim>\<open>v[key]\<close>. The functions below read own properties, indices and
  \<open>length\<close>; a property that is not an own one reads as \<^verbatim>\<open>undefined\<close>.
\<close>

fun getProperty :: "jsval \<Rightarrow> string \<Rightarrow> error + jsval" where
  "getProperty JUndef key = Inl TypeError"
| "getProperty JNull key = Inl TypeError"
| "getProperty v key = Inr (case map_of (ownProperties v) key of Some x \<Rightarrow> x | None \<Rightarrow> JUndef)"

text \<open>
  The conversion of a value to a property key, \<^verbatim>\<open>ToString\<close>. An array joins its
  elements with commas, \<^verbatim>\<open>null\<close> and \<^verbatim>\<open>undefined\<close> among them as empty strings; an
  object gives \<open>[object Object]\<close>, unless an own property \<open>toString\<close> hides the
  inherited method, which leaves no way to a primitive value.
\<close>

fun toPropertyKey :: "jsval \<Rightarrow> error + string"
and elementStrings :: "jsval list \<Rightarrow> error + string list" where
  "toPropertyKey JUndef = Inr ''undefined''"
| "toPropertyKey JNull = Inr ''null''"
| "toPropertyKey (JBool b) = Inr (if b then ''true'' else ''false'')"
| "toPropertyKey (JNum n) = Inr (numToString n)"
| "toPropertyKey (JStr s) = Inr s"
| "toPropertyKey (JArr xs) =
     (case elementStrings xs of Inl e \<Rightarrow> Inl e | Inr ss \<Rightarrow> Inr (join ss '',''))"
| "toPropertyKey (JObj kvs) =
     (if ''toString'' \<in> set (map fst kvs) then Inl TypeError else Inr ''[object Object]'')"
| "elementStrings [] = Inr []"
| "elementStrings (x # xs) =
     (case (if x = JNull \<or> x = JUndef then Inr [] else toPropertyKey x) of
        Inl e \<Rightarrow> Inl e
      | Inr s \<Rightarrow> (case elementStrings xs of Inl e \<Rightarrow> Inl e | Inr ss \<Rightarrow> Inr (s # ss)))"

text \<open>
  \<^verbatim>\<open>a.every((e) => typeof e === 'string')\<close>, with the strings when it holds.
\<close>

fun stringsOf :: "jsval list \<Rightarrow> string list option" where
  "stringsOf [] = Some []"
| "stringsOf (JStr s # xs) = (case stringsOf xs of None \<Rightarrow> None | Some ss \<Rightarrow> Some (s # ss))"
| "stringsOf (x # xs) = None"

text \<open>\<^verbatim>\<open>a[0]\<close> as a property key: \<^verbatim>\<open>undefined\<close> when the array is empty.\<close>

fun firstKey :: "string list \<Rightarrow> string" where
  "firstKey [] = ''undefined''"
| "firstKey (x # xs) = x"

section \<open>The path index\<close>

text \<open>
  \<^verbatim>\<open>getPropertyPaths(o)\<close>. The function calls itself on the index it has just built
  (\<open>subValue\<close>), so its recursion does not follow the structure of its argument, and
  there are arguments on which it calls itself forever. The model counts the depth of
  the calls down from its first argument: \<open>None\<close> says that the depth was not enough,
  \<open>Some (Inl e)\<close> that \<open>e\<close> was raised.

  The three loops take the function for their recursive calls, \<open>self\<close>, as an
  argument. \<open>arrayLoop\<close> is \<^verbatim>\<open>pValue.map((p, i) => ...)\<close> and \<open>objectLoop\<close> is
  \<^verbatim>\<open>Object.entries(pValue).map((p) => ...)\<close>, both with \<open>pathsArray\<close>; \<open>propertyLoop\<close>
  is \<^verbatim>\<open>Object.entries(o).map((prop) => ...)\<close> with \<open>pathsObject\<close>. In \<open>arrayLoop\<close>,
  \<^verbatim>\<open>p[1]\<close> is read from every element, and raises on \<^verbatim>\<open>null\<close>.
\<close>

fun arrayLoop ::
  "(jsval \<Rightarrow> (error + jsval) option) \<Rightarrow> jsval list \<Rightarrow> nat \<Rightarrow> jsval list
    \<Rightarrow> (error + jsval list) option" where
  "arrayLoop self pathsArray i [] = Some (Inr pathsArray)"
| "arrayLoop self pathsArray i (p # ps) =
     (case getProperty p ''1'' of
        Inl e \<Rightarrow> Some (Inl e)
      | Inr p1 \<Rightarrow>
          (case (if isObject p1 then self (JObj (addObjectProperty [] (natToString i) p))
                 else Some (Inr p)) of
             None \<Rightarrow> None
           | Some (Inl e) \<Rightarrow> Some (Inl e)
           | Some (Inr subValue) \<Rightarrow>
               (case self (JObj (addObjectProperty [] (natToString i) subValue)) of
                  None \<Rightarrow> None
                | Some (Inl e) \<Rightarrow> Some (Inl e)
                | Some (Inr r) \<Rightarrow> arrayLoop self (pathsArray @ [r]) (Suc i) ps)))"

fun objectLoop ::
  "(jsval \<Rightarrow> (error + jsval) option) \<Rightarrow> jsval list \<Rightarrow> (string \<times> jsval) list
    \<Rightarrow> (error + jsval list) option" where
  "objectLoop self pathsArray [] = Some (Inr pathsArray)"
| "objectLoop self pathsArray ((k, v) # rest) =
     (case self (JObj (addObjectProperty [] k v)) of
        None \<Rightarrow> None
      | Some (Inl e) \<Rightarrow> Some (Inl e)
      | Some (Inr r) \<Rightarrow> objectLoop self (pathsArray @ [r]) rest)"

fun propertyLoop ::
  "(jsval \<Rightarrow> (error + jsval) option) \<Rightarrow> (string \<times> jsval) list \<Rightarrow> (string \<times> jsval) list
    \<Rightarrow> (error + jsval) option" where
  "propertyLoop self pathsObject [] = Some (Inr (JObj pathsObject))"
| "propertyLoop self pathsObject ((pKey, pValue) # rest) =
     (case (case pValue of
              JArr xs \<Rightarrow> arrayLoop self [] 0 xs
            | JObj kvs \<Rightarrow> objectLoop self [] kvs
            | _ \<Rightarrow> Some (Inr [])) of
        None \<Rightarrow> None
      | Some (Inl e) \<Rightarrow> Some (Inl e)
      | Some (Inr pathsArray) \<Rightarrow>
          propertyLoop self (addObjectProperty pathsObject pKey (JArr pathsArray)) rest)"

primrec getPropertyPaths :: "nat \<Rightarrow> jsval \<Rightarrow> (error + jsval) option" where
  "getPropertyPaths 0 obj = None"
| "getPropertyPaths (Suc depth) obj =
     (case objectEntries obj of
        Inl e \<Rightarrow> Some (Inl e)
      | Inr kvs \<Rightarrow> propertyLoop (getPropertyPaths depth) [] kvs)"

section \<open>Path resolution\<close>

text \<open>\<^verbatim>\<open>p.find((e) => e.hasOwnProperty(currentProperty))\<close> on the elements of an array.\<close>

fun findOwner :: "jsval list \<Rightarrow> string \<Rightarrow> error + jsval" where
  "findOwner [] currentProperty = Inr JUndef"
| "findOwner (e # es) currentProperty =
     (case hasOwnProperty e currentProperty of
        Inl err \<Rightarrow> Inl err
      | Inr found \<Rightarrow> if found then Inr e else findOwner es currentProperty)"

text \<open>
  The \<^verbatim>\<open>reduce\<close> of \<open>toStringPath\<close>, from the second name on, with the variable \<open>p\<close>.
  Only an array has the method \<open>find\<close>. The test of \<open>shouldAssignNextProperty\<close> reads
  \<^verbatim>\<open>(nextPathObject && nextPathObject[c] instanceof Array) ? nextPathObject[c].length > 0
  : nextPathObject.hasOwnProperty(c)\<close>: when nothing was found, the last branch calls a
  method of \<^verbatim>\<open>undefined\<close>.
\<close>

fun toStringPathLoop :: "jsval \<Rightarrow> string list \<Rightarrow> error + jsval" where
  "toStringPathLoop p [] = Inr p"
| "toStringPathLoop p (currentProperty # rest) =
     (if p \<noteq> JNull
      then (case p of
              JArr es \<Rightarrow>
                (case findOwner es currentProperty of
                   Inl e \<Rightarrow> Inl e
                 | Inr nextPathObject \<Rightarrow>
                     (case (if truthy nextPathObject then getProperty nextPathObject currentProperty
                            else Inr JUndef) of
                        Inl e \<Rightarrow> Inl e
                      | Inr next \<Rightarrow>
                          (case (if truthy nextPathObject \<and> isArray next
                                 then (case next of JArr ys \<Rightarrow> Inr (length ys > 0) | _ \<Rightarrow> Inr False)
                                 else hasOwnProperty nextPathObject currentProperty) of
                             Inl e \<Rightarrow> Inl e
                           | Inr shouldAssignNextProperty \<Rightarrow>
                               (if shouldAssignNextProperty
                                then (case getProperty nextPathObject currentProperty of
                                        Inl e \<Rightarrow> Inl e
                                      | Inr v \<Rightarrow> toStringPathLoop v rest)
                                else toStringPathLoop JNull rest))))
            | _ \<Rightarrow> Inl TypeError)
      else toStringPathLoop p rest)"

text \<open>
  \<^verbatim>\<open>toStringPath(paths, propertyNames, delimiter)\<close>; the result \<open>JUndef\<close> is the end of
  the function without a \<^verbatim>\<open>return\<close>. \<^verbatim>\<open>reduce\<close> without an initial value raises on an
  empty array.
\<close>

definition toStringPath :: "jsval \<Rightarrow> jsval \<Rightarrow> string \<Rightarrow> error + jsval" where
  "toStringPath paths propertyNames delimiter =
     (let pathCheck = isObject paths;
          arrayCheck = (pathCheck \<and> isArray propertyNames);
          names = (case propertyNames of JArr xs \<Rightarrow> stringsOf xs | _ \<Rightarrow> None);
          allStringsCheck = (arrayCheck \<and> names \<noteq> None)
      in case (if allStringsCheck then hasOwnProperty paths (firstKey (the names)) else Inr False) of
           Inl e \<Rightarrow> Inl e
         | Inr legitFirstCheck \<Rightarrow>
             (if legitFirstCheck
              then (case getProperty paths (firstKey (the names)) of
                      Inl e \<Rightarrow> Inl e
                    | Inr p0 \<Rightarrow>
                        (case the names of
                           [] \<Rightarrow> Inl TypeError
                         | first # rest \<Rightarrow>
                             (case toStringPathLoop p0 rest of
                                Inl e \<Rightarrow> Inl e
                              | Inr p \<Rightarrow>
                                  (if p \<noteq> JNull then Inr (JStr (join (the names) delimiter))
                                   else Inr JUndef))))
              else Inr JUndef))"

text \<open>The \<^verbatim>\<open>reduce\<close> of \<open>toArrayPath\<close>.\<close>

fun toArrayPathLoop :: "jsval \<Rightarrow> string list \<Rightarrow> error + jsval" where
  "toArrayPathLoop p [] = Inr p"
| "toArrayPathLoop p (currentProperty # rest) =
     (if p \<noteq> JNull
      then (case p of
              JArr es \<Rightarrow>
                (case findOwner es currentProperty of
                   Inl e \<Rightarrow> Inl e
                 | Inr nextPathObject \<Rightarrow>
                     (case (if truthy nextPathObject then hasOwnProperty nextPathObject currentProperty
                            else Inr False) of
                        Inl e \<Rightarrow> Inl e
                      | Inr has \<Rightarrow>
                          (if has
                           then (case getProperty nextPathObject currentProperty of
                                   Inl e \<Rightarrow> Inl e
                                 | Inr v \<Rightarrow> toArrayPathLoop v rest)
                           else toArrayPathLoop JNull rest)))
            | _ \<Rightarrow> Inl TypeError)
      else toArrayPathLoop p rest)"

text \<open>
  \<^verbatim>\<open>toArrayPath(paths, propertyString, delimiter)\<close>. \<^verbatim>\<open>propertyString.split(delimiter)\<close>
  is evaluated before \<open>propertyPathCheck\<close> is used, and only a string has the method
  \<open>split\<close>.
\<close>

definition toArrayPath :: "jsval \<Rightarrow> jsval \<Rightarrow> string \<Rightarrow> error + jsval" where
  "toArrayPath paths propertyString delimiter =
     (let pathsCheck = isObject paths;
          propertyPathCheck = (pathsCheck \<and> (case propertyString of JStr s \<Rightarrow> True | _ \<Rightarrow> False))
      in case (case propertyString of JStr s \<Rightarrow> Inr (split s delimiter) | _ \<Rightarrow> Inl TypeError) of
           Inl e \<Rightarrow> Inl e
         | Inr properties \<Rightarrow>
             (case (if propertyPathCheck then hasOwnProperty paths (firstKey properties)
                    else Inr False) of
                Inl e \<Rightarrow> Inl e
              | Inr legitFirstCheck \<Rightarrow>
                  (if legitFirstCheck
                   then (case getProperty paths (firstKey properties) of
                           Inl e \<Rightarrow> Inl e
                         | Inr p0 \<Rightarrow>
                             (case properties of
                                [] \<Rightarrow> Inl TypeError
                              | first # rest \<Rightarrow>
                                  (case toArrayPathLoop p0 rest of
                                     Inl e \<Rightarrow> Inl e
                                   | Inr p \<Rightarrow>
                                       (if p \<noteq> JNull then Inr (JArr (map JStr properties))
                                        else Inr JUndef))))
                   else Inr JUndef)))"

text \<open>
  \<^verbatim>\<open>hasPropertyAtPath(item, pathChain, delimiter)\<close>. A missing \<open>delimiter\<close>
  (\<^verbatim>\<open>undefined\<close>) is \<open>'.'\<close>. \<open>hasPropertyAtPathArray\<close> is the function from
  \<^verbatim>\<open>path.length === 1\<close> on, for the array \<open>path\<close>; the recursive call passes an array,
  \<^verbatim>\<open>path.slice(i + 1)\<close>. \<open>hasPropertyLoop\<close> is \<^verbatim>\<open>path.map((p, i) => ...)\<close> with
  \<open>propertyFound\<close>, on the elements from \<open>p\<close> on: the rest of the list is
  \<^verbatim>\<open>path.slice(i + 1)\<close>.
\<close>

fun defaultDelimiter :: "jsval \<Rightarrow> jsval" where
  "defaultDelimiter JUndef = JStr ''.''"
| "defaultDelimiter d = d"

function hasPropertyAtPathArray :: "jsval \<Rightarrow> jsval list \<Rightarrow> error + bool"
and hasPropertyLoop :: "jsval \<Rightarrow> bool \<Rightarrow> jsval list \<Rightarrow> error + bool" where
  "hasPropertyAtPathArray item path =
     (if length path = 1
      then (case toPropertyKey (path ! 0) of
              Inl e \<Rightarrow> Inl e
            | Inr key \<Rightarrow> hasOwnProperty item key)
      else hasPropertyLoop item False path)"
| "hasPropertyLoop item propertyFound [] = Inr propertyFound"
| "hasPropertyLoop item propertyFound (p # rest) =
     (case toPropertyKey p of
        Inl e \<Rightarrow> Inl e
      | Inr key \<Rightarrow>
          (case hasOwnProperty item key of
             Inl e \<Rightarrow> Inl e
           | Inr has \<Rightarrow>
               (if has
                then (case getProperty item key of
                        Inl e \<Rightarrow> Inl e
                      | Inr v \<Rightarrow>
                          (case hasPropertyAtPathArray v rest of
                             Inl e \<Rightarrow> Inl e
                           | Inr found \<Rightarrow> hasPropertyLoop item found rest))
                else hasPropertyLoop item propertyFound rest)))"
  by pat_completeness auto
termination
  by (relation "measure (\<lambda>x. case x of Inl (item, path) \<Rightarrow> 2 * length path + 1
                                   | Inr (item, propertyFound, path) \<Rightarrow> 2 * length path)") auto

declare hasPropertyAtPathArray.simps [simp del]

definition hasPropertyAtPath :: "jsval \<Rightarrow> jsval \<Rightarrow> jsval \<Rightarrow> error + bool" where
  "hasPropertyAtPath item pathChain delimiter =
     (case pathChain of
        JArr path \<Rightarrow> hasPropertyAtPathArray item path
      | JStr s \<Rightarrow>
          (case defaultDelimiter delimiter of
             JStr d \<Rightarrow> hasPropertyAtPathArray item (map JStr (split s d))
           | _ \<Rightarrow> Inr False)
      | _ \<Rightarrow> Inr False)"

text \<open>
  \<^verbatim>\<open>getAttributeAtPath(item, path, delimiter)\<close>. The test
  \<^verbatim>\<open>isFinite(indexValue) && indexValue < attributeFound[current][attributeKeyCode].length\<close>
  applies two operations of the language to a token, a string: \<^verbatim>\<open>isFinite\<close> converts it
  to a number, and \<open><\<close> compares it with whatever \<open>length\<close> is read. They are the
  parameters \<open>tokenFinite\<close> and \<open>tokenLess\<close> of the model. \<open>nextAttributeFound\<close> is the
  \<^verbatim>\<open>switch\<close> on the only key of \<open>currentAttribute\<close>: the new value of \<open>attributeFound\<close>.
  \<open>attributeLoop\<close> is \<^verbatim>\<open>localPath.map((current, i) => ...)\<close> with \<open>attributeFound\<close> and
  \<open>returnAttribute\<close>; the rest of the list is \<open>nextPath\<close>, \<^verbatim>\<open>localPath.slice(i + 1)\<close>, and
  it is empty when \<^verbatim>\<open>(i + 1) === localPath.length\<close>.
\<close>

definition nextAttributeFound ::
  "(string \<Rightarrow> bool) \<Rightarrow> (string \<Rightarrow> jsval \<Rightarrow> bool) \<Rightarrow> jsval \<Rightarrow> jsval \<Rightarrow> string list \<Rightarrow> string list
    \<Rightarrow> error + jsval" where
  "nextAttributeFound tokenFinite tokenLess attributeFound currentAttribute attributeKeys nextPath =
     (if length attributeKeys > 0 \<and> length attributeKeys < 2
      then (let attributeKeyCode = attributeKeys ! 0
            in if attributeKeyCode \<in> {''S'', ''N'', ''B'', ''NULL'', ''BOOL''}
               then Inr currentAttribute
               else if attributeKeyCode = ''M''
               then getProperty currentAttribute attributeKeyCode
               else if attributeKeyCode \<in> {''L'', ''SS'', ''NS'', ''BS''}
               then (if length nextPath > 1
                     then (if tokenFinite (nextPath ! 0)
                           then (case getProperty currentAttribute attributeKeyCode of
                                   Inl e \<Rightarrow> Inl e
                                 | Inr tagValue \<Rightarrow>
                                     (case getProperty tagValue ''length'' of
                                        Inl e \<Rightarrow> Inl e
                                      | Inr len \<Rightarrow>
                                          (if tokenLess (nextPath ! 0) len then Inr tagValue
                                           else Inr attributeFound)))
                           else Inr attributeFound)
                     else getProperty currentAttribute attributeKeyCode)
               else Inr attributeFound)
      else Inr attributeFound)"

fun attributeLoop ::
  "(string \<Rightarrow> bool) \<Rightarrow> (string \<Rightarrow> jsval \<Rightarrow> bool) \<Rightarrow> jsval \<Rightarrow> jsval \<Rightarrow> string list \<Rightarrow> error + jsval" where
  "attributeLoop tokenFinite tokenLess attributeFound returnAttribute [] = Inr returnAttribute"
| "attributeLoop tokenFinite tokenLess attributeFound returnAttribute (current # nextPath) =
     (case hasOwnProperty attributeFound current of
        Inl e \<Rightarrow> Inl e
      | Inr has \<Rightarrow>
          (if has
           then (case getProperty attributeFound current of
                   Inl e \<Rightarrow> Inl e
                 | Inr currentAttribute \<Rightarrow>
                     (case objectKeys currentAttribute of
                        Inl e \<Rightarrow> Inl e
                      | Inr attributeKeys \<Rightarrow>
                          (case nextAttributeFound tokenFinite tokenLess attributeFound currentAttribute
                                  attributeKeys nextPath of
                             Inl e \<Rightarrow> Inl e
                           | Inr found \<Rightarrow>
                               attributeLoop tokenFinite tokenLess found currentAttribute nextPath)))
           else attributeLoop tokenFinite tokenLess attributeFound
                  (if nextPath = [] then JBool False else returnAttribute) nextPath))"

definition getAttributeAtPath ::
  "(string \<Rightarrow> bool) \<Rightarrow> (string \<Rightarrow> jsval \<Rightarrow> bool) \<Rightarrow> jsval \<Rightarrow> jsval \<Rightarrow> jsval \<Rightarrow> error + jsval" where
  "getAttributeAtPath tokenFinite tokenLess item path delimiter =
     (let localPath =
            (case path of
               JArr xs \<Rightarrow> stringsOf xs
             | JStr s \<Rightarrow> (case defaultDelimiter delimiter of JStr d \<Rightarrow> Some (split s d) | _ \<Rightarrow> None)
             | _ \<Rightarrow> None);
          objectCheck = isObject item;
          pathCheck = (objectCheck \<and> localPath \<noteq> None)
      in case hasOwnProperty item (case localPath of None \<Rightarrow> ''undefined'' | Some ts \<Rightarrow> firstKey ts) of
           Inl e \<Rightarrow> Inl e
         | Inr legitFirstCheck \<Rightarrow>
             (if \<not> pathCheck \<or> \<not> objectCheck \<or> \<not> legitFirstCheck then Inr (JBool False)
              else attributeLoop tokenFinite tokenLess item item (the localPath)))"

text \<open>\<^verbatim>\<open>hasAttributeAtPath\<close>: \<^verbatim>\<open>getAttributeAtPath(item, path, delimiter) !== false\<close>.\<close>

definition hasAttributeAtPath ::
  "(string \<Rightarrow> bool) \<Rightarrow> (string \<Rightarrow> jsval \<Rightarrow> bool) \<Rightarrow> jsval \<Rightarrow> jsval \<Rightarrow> jsval \<Rightarrow> error + bool" where
  "hasAttributeAtPath tokenFinite tokenLess item path delimiter =
     (case getAttributeAtPath tokenFinite tokenLess item path delimiter of
        Inl e \<Rightarrow> Inl e
      | Inr r \<Rightarrow> Inr (r \<noteq> JBool False))"

text \<open>
  An instance of the two operations, for evaluating the model: it is the language's
  on a token of decimal digits compared with a number, as an array index is with the
  length of an array.
\<close>

definition decimalValue :: "string \<Rightarrow> nat" where
  "decimalValue t = foldl (\<lambda>a c. 10 * a + (of_char c - 48)) 0 t"

definition decimalFinite :: "string \<Rightarrow> bool" where
  "decimalFinite t = (t \<noteq> [] \<and> list_all (\<lambda>c. c \<in> set ''0123456789'') t)"

definition decimalLess :: "string \<Rightarrow> jsval \<Rightarrow> bool" where
  "decimalLess t v =
     (decimalFinite t \<and>
      (case v of
         JNum (Dec neg s e) \<Rightarrow> \<not> neg \<and> decimalValue t * 10 ^ nat (- e) < s * 10 ^ nat e
       | JNum (Infinity neg) \<Rightarrow> \<not> neg
       | _ \<Rightarrow> False))"

section \<open>Values, indices and paths\<close>

text \<open>
  The properties \<open>getPropertyPaths\<close> descends into: the elements of an array under
  their indices, and the properties of an object. A string has none.
\<close>

fun children :: "jsval \<Rightarrow> (string \<times> jsval) list" where
  "children (JArr xs) = arrayEntries xs"
| "children (JObj kvs) = kvs"
| "children v = []"

lemma children_size: "(k, c) \<in> set (children v) \<Longrightarrow> size c < size v"
proof (cases v)
  case (JArr xs)
  assume "(k, c) \<in> set (children v)"
  with JArr have "c \<in> set xs"
    by (auto simp: arrayEntries_def dest: set_zip_rightD)
  then have "size c \<le> size_list size xs"
    by (simp add: size_list_estimation')
  with JArr show ?thesis by simp
next
  case (JObj kvs)
  assume "(k, c) \<in> set (children v)"
  with JObj have "(k, c) \<in> set kvs" by simp
  then have "size_prod (\<lambda>x. 0) size (k, c) \<le> size_list (size_prod (\<lambda>x. 0) size) kvs"
    by (simp add: size_list_estimation')
  with JObj show ?thesis by simp
qed auto

text \<open>
  The path index as the specification describes it: the sequence of one-entry steps
  below a value, one for each child, keyed by the child's name and holding the steps
  below the child; a leaf has no step. \<open>indexOf\<close> is the index of a record: each
  top-level key with the steps below its value.
\<close>

function shapeIndex :: "jsval \<Rightarrow> jsval list" where
  "shapeIndex v = map (\<lambda>kc. JObj [(fst kc, JArr (shapeIndex (snd kc)))]) (children v)"
  by pat_completeness auto
termination
  by (relation "measure size") (auto simp: children_size)

declare shapeIndex.simps [simp del]

definition indexOf :: "(string \<times> jsval) list \<Rightarrow> jsval" where
  "indexOf es = JObj (map (\<lambda>kc. (fst kc, JArr (shapeIndex (snd kc)))) es)"

text \<open>The number of containers nested in a value: a bound on the depth of the calls.\<close>

function nesting :: "jsval \<Rightarrow> nat" where
  "nesting v = foldr max (map (\<lambda>kc. Suc (nesting (snd kc))) (children v)) 0"
  by pat_completeness auto
termination
  by (relation "measure size") (auto simp: children_size)

declare nesting.simps [simp del]

text \<open>
  The lists that \<open>getPropertyPaths\<close> indexes: \<^verbatim>\<open>p[1]\<close> can be read from every element
  (none is \<^verbatim>\<open>null\<close> or \<^verbatim>\<open>undefined\<close>), and it is neither a list nor a map. Where it
  is one, \<open>getPropertyPaths\<close> indexes the index it has built for the element.
\<close>

function listsIndexable :: "jsval \<Rightarrow> bool" where
  "listsIndexable v =
     ((case v of
         JArr xs \<Rightarrow>
           list_all (\<lambda>x. case getProperty x ''1'' of Inl e \<Rightarrow> False | Inr p1 \<Rightarrow> \<not> isObject p1) xs
       | _ \<Rightarrow> True)
      \<and> list_all (\<lambda>kc. listsIndexable (snd kc)) (children v))"
  by pat_completeness auto
termination
  by (relation "measure size") (auto simp: children_size)

declare listsIndexable.simps [simp del]

text \<open>
  The maps that \<open>getAttributeAtPath\<close> can walk: the keys are distinct, as those of an
  object are, and none is \<open>hasOwnProperty\<close>.
\<close>

function plainKeys :: "jsval \<Rightarrow> bool" where
  "plainKeys v =
     ((case v of
         JObj kvs \<Rightarrow> distinct (map fst kvs) \<and> ''hasOwnProperty'' \<notin> set (map fst kvs)
       | _ \<Rightarrow> True)
      \<and> list_all (\<lambda>kc. plainKeys (snd kc)) (children v))"
  by pat_completeness auto
termination
  by (relation "measure size") (auto simp: children_size)

declare plainKeys.simps [simp del]

definition indexable :: "jsval \<Rightarrow> bool" where
  "indexable v = (plainKeys v \<and> listsIndexable v)"

text \<open>The value reached from \<open>v\<close> by a path of child names, if there is one.\<close>

fun descend :: "jsval \<Rightarrow> string list \<Rightarrow> jsval option" where
  "descend v [] = Some v"
| "descend v (t # ts) = (case map_of (children v) t of None \<Rightarrow> None | Some c \<Rightarrow> descend c ts)"

text \<open>
  A path present in an index: its first token is a key of the index, and each
  further token is the key of a step in the sequence reached so far.
\<close>

fun pathInIndex :: "jsval \<Rightarrow> string list \<Rightarrow> bool" where
  "pathInIndex idx [] = False"
| "pathInIndex idx (k # rest) =
     (case idx of
        JObj kvs \<Rightarrow>
          (case map_of kvs k of
             Some (JArr steps) \<Rightarrow> rest = [] \<or> list_ex (\<lambda>step. pathInIndex step rest) steps
           | _ \<Rightarrow> False)
      | _ \<Rightarrow> False)"

text \<open>
  What the language's \<^verbatim>\<open>isFinite\<close> and \<open><\<close> do with an array index written in
  decimal and a length: the index is finite, and compares as the number it denotes.
\<close>

definition tokenCoercion :: "(string \<Rightarrow> bool) \<Rightarrow> (string \<Rightarrow> jsval \<Rightarrow> bool) \<Rightarrow> bool" where
  "tokenCoercion tokenFinite tokenLess =
     (\<forall>i n. (tokenFinite (natToString i) \<and> tokenLess (natToString i) (JNum (Dec False n 0))) = (i < n))"

text \<open>
  Two abbreviations for the proofs. \<open>foundOf v\<close> is the value of \<open>attributeFound\<close>
  after the attribute encoded from \<open>v\<close> has been entered: the list under \<open>L\<close>, the map
  under \<open>M\<close>, or the attribute itself. \<open>pathsArrayOf\<close> is the \<open>pathsArray\<close> that
  \<open>propertyLoop\<close> computes for one property value.
\<close>

fun foundOf :: "jsval \<Rightarrow> jsval" where
  "foundOf (JArr xs) = JArr (map createAttribute xs)"
| "foundOf (JObj kvs) =
     (if kvs = [] then nullAttribute else JObj (map (\<lambda>(k, c). (k, createAttribute c)) kvs))"
| "foundOf v = createAttribute v"

definition pathsArrayOf :: "(jsval \<Rightarrow> (error + jsval) option) \<Rightarrow> jsval \<Rightarrow> (error + jsval list) option" where
  "pathsArrayOf self pValue =
     (case pValue of
        JArr xs \<Rightarrow> arrayLoop self [] 0 xs
      | JObj kvs \<Rightarrow> objectLoop self [] kvs
      | _ \<Rightarrow> Some (Inr []))"

text \<open>
  What \<open>arrayLoop\<close> has done for an element \<open>x\<close> at index \<open>i\<close> when it pushes \<open>r\<close>.
\<close>

definition elementIndexed :: "(jsval \<Rightarrow> (error + jsval) option) \<Rightarrow> nat \<Rightarrow> jsval \<Rightarrow> jsval \<Rightarrow> bool" where
  "elementIndexed self i x r =
     (\<exists>p1 sub.
        getProperty x ''1'' = Inr p1
        \<and> (if isObject p1 then self (JObj [(natToString i, x)]) = Some (Inr sub) else sub = x)
        \<and> self (JObj [(natToString i, sub)]) = Some (Inr r))"

section \<open>Properties of the encoder\<close>

lemma nullAttribute_eq: "nullAttribute = JObj [(''NULL'', JBool True)]"
  by (simp add: nullAttribute_def)

lemma createAttribute_null: "createAttribute JNull = JObj [(''NULL'', JBool True)]"
  by (simp add: nullAttribute_eq)

lemma trim_whitespace_only: "\<forall>c\<in>set s. isWhiteSpace c \<Longrightarrow> trim s = []"
  by (auto simp: trim_def dropWhile_eq_Nil_conv dest: set_dropWhileD)

lemma truthy_createAttribute: "truthy (createAttribute v)"
  by (cases v) (simp_all add: nullAttribute_eq Let_def)

lemma addObjectProperty_new:
  "key \<notin> fst ` set obj \<Longrightarrow> addObjectProperty obj key v = obj @ [(key, v)]"
  by (induction obj) auto

lemma object2MapLoop_distinct:
  "distinct (map fst mapValue @ map fst kvs) \<Longrightarrow>
   object2MapLoop mapValue kvs = mapValue @ map (\<lambda>(k, v). (k, createAttribute v)) kvs"
proof (induction kvs arbitrary: mapValue)
  case Nil
  then show ?case by simp
next
  case (Cons kv kvs)
  obtain k v where kv: "kv = (k, v)" by (cases kv)
  from Cons.prems kv have new: "k \<notin> fst ` set mapValue"
    by auto
  from Cons.prems kv have "distinct (map fst (mapValue @ [(k, createAttribute v)]) @ map fst kvs)"
    by auto
  then have "object2MapLoop (mapValue @ [(k, createAttribute v)]) kvs =
      (mapValue @ [(k, createAttribute v)]) @ map (\<lambda>(k, v). (k, createAttribute v)) kvs"
    by (rule Cons.IH)
  then show ?case
    using new kv by (simp add: truthy_createAttribute addObjectProperty_new)
qed

text \<open>
  The object case of \<open>createAttribute\<close> is \<^verbatim>\<open>Object.assign(newProperty, object2Map(o))\<close>
  followed by the last line: the result of \<open>object2Map\<close> has one property, so it is
  returned as it is.
\<close>

lemma createAttribute_object2Map:
  "distinct (map fst kvs) \<Longrightarrow> object2Map (JObj kvs) = Inr (createAttribute (JObj kvs))"
  by (simp add: object2Map_def object2MapLoop_distinct[of "[]", simplified] Let_def nullAttribute_eq)

text \<open>
  Claim C1, as the code has it. An empty or white-space-only string and an empty map
  are encoded as the NULL attribute \<open>{NULL: true}\<close>. A list is always encoded under
  \<open>L\<close>, whatever its length, as the list of its encoded elements, and never as the
  NULL attribute: the empty list gives \<open>{L: []}\<close>, and \<open>[null]\<close> gives
  \<open>{L: [{NULL: true}]}\<close>.
\<close>

theorem createAttribute_emptiness:
  assumes "\<forall>c\<in>set s. isWhiteSpace c"
  shows "createAttribute (JStr s) = JObj [(''NULL'', JBool True)]
       \<and> createAttribute (JObj []) = JObj [(''NULL'', JBool True)]
       \<and> createAttribute (JArr xs) = JObj [(''L'', JArr (map createAttribute xs))]
       \<and> createAttribute (JArr xs) \<noteq> JObj [(''NULL'', JBool True)]
       \<and> createAttribute (JArr []) = JObj [(''L'', JArr [])]
       \<and> createAttribute (JArr [JNull]) = JObj [(''L'', JArr [JObj [(''NULL'', JBool True)]])]"
  using assms by (simp add: trim_whitespace_only nullAttribute_eq)

theorem createAttribute_emptiness_witness:
  "isWhiteSpace (CHR '' '')
   \<and> createAttribute (JStr []) = JObj [(''NULL'', JBool True)]
   \<and> createAttribute (JStr ''   '') = JObj [(''NULL'', JBool True)]
   \<and> createAttribute (JObj []) = JObj [(''NULL'', JBool True)]
   \<and> createAttribute (JArr []) = JObj [(''L'', JArr [])]
   \<and> createAttribute (JArr [JNull]) = JObj [(''L'', JArr [JObj [(''NULL'', JBool True)]])]
   \<and> createAttribute (JArr [JStr ''a'', JBool True, JArr []])
       = JObj [(''L'', JArr [JObj [(''S'', JStr ''a'')], JObj [(''BOOL'', JBool True)],
            JObj [(''L'', JArr [])]])]"
proof -
  have ws: "isWhiteSpace (CHR '' '')"
    by (simp add: isWhiteSpace_def)
  then have "\<forall>c\<in>set ''   ''. isWhiteSpace c"
    by simp
  from createAttribute_emptiness[OF this, of "[JStr ''a'', JBool True, JArr []]"]
    createAttribute_emptiness[of "[]" "[]"] ws
  show ?thesis by (simp add: trim_def isWhiteSpace_def)
qed

text \<open>
  Claim C1 as stated fails at the empty list: \<^verbatim>\<open>createAttribute([])\<close> is \<open>{L: []}\<close>.
\<close>

theorem createAttribute_empty_list_not_null:
  "createAttribute (JArr []) = JObj [(''L'', JArr [])]
   \<and> createAttribute (JArr []) \<noteq> JObj [(''NULL'', JBool True)]"
  by simp

section \<open>Properties of the size engine\<close>

lemma arraySizeLoop_eq: "arraySizeLoop sz a = sz + 3 * length a"
  by (induction a arbitrary: sz) simp_all

lemma itemSizeLoop_eq: "itemSizeLoop sz kvs = sz + rawBytes kvs"
  by (induction kvs arbitrary: sz) (auto simp: rawBytes_def)

lemma numberSizeLoop_eq:
  "numberSizeLoop i l sz = (if i \<le> l then sz + 2 * ((l - i) div 2 + 1) else sz)"
proof (induction i l sz rule: numberSizeLoop.induct)
  case (1 i l sz)
  show ?case
  proof (cases "i \<le> l")
    case True
    then have "numberSizeLoop i l sz = numberSizeLoop (i + 2) l (sz + 2)"
      by (simp add: numberSizeLoop.simps[of i])
    also have "\<dots> = (if i + 2 \<le> l then sz + 2 + 2 * ((l - (i + 2)) div 2 + 1) else sz + 2)"
      using 1 True by simp
    also have "\<dots> = sz + 2 * ((l - i) div 2 + 1)"
      using True by (auto simp: not_le) (simp add: div_eq_0_iff less_Suc_eq_le | arith)+
    finally show ?thesis using True by simp
  next
    case False
    then show ?thesis by (simp add: numberSizeLoop.simps[of i])
  qed
qed

text \<open>
  The size of a list counts three bytes for each element and nothing of the element
  itself: \<^verbatim>\<open>getObjectSize(e)\<close> binds the element to \<open>name\<close> and leaves \<open>o\<close> undefined.
\<close>

lemma arraySizeCount_eq: "arraySizeCount name a = length name + 3 + 3 * length a"
  by (simp add: arraySizeCount_def arraySizeLoop_eq)

text \<open>
  Claim C2 at \<^verbatim>\<open>arraySizeCount("a", ["xyz"])\<close>: the code returns 7, where the claim's
  rule gives 10.
\<close>

theorem arraySizeCount_a_xyz: "arraySizeCount ''a'' [JStr ''xyz''] = 7"
  by (simp add: arraySizeCount_def)

text \<open>
  The loop of \<open>numberSizeCount\<close> runs for \<open>i = 0, 2, ...\<close> up to and including the
  length of the fractional part: \<open>length div 2 + 1\<close> times.
\<close>

lemma numberSizeCount_eq:
  "numberSizeCount name n =
     (if CHR ''.'' \<in> set (numToString n)
      then length name + 1 + 2 * (length (split (numToString n) ''.'' ! 1) div 2 + 1)
      else length name + 1)"
  by (simp add: numberSizeCount_def numberSizeLoop_eq Let_def)

text \<open>
  Claim C3 at \<^verbatim>\<open>numberSizeCount("n", 1.2345)\<close>: the decimal string is \<open>1.2345\<close>, the
  fractional part has four digits, the loop runs three times and the code returns 8,
  where the claim gives 6.
\<close>

theorem numberSizeCount_n_1_2345:
  "numToString (Dec False 12345 (- 4)) = ''1.2345''
   \<and> numberSizeCount ''n'' (Dec False 12345 (- 4)) = 8"
proof -
  have "stripZeros 12345 (- 4) = (12345, - 4)"
    by (simp add: stripZeros.simps[of 12345])
  moreover have "natToString 12345 = ''12345''"
    by (simp add: natToString.simps)
  ultimately have str: "numToString (Dec False 12345 (- 4)) = ''1.2345''"
    by (simp add: numToString_def)
  then show ?thesis
    by (simp add: numberSizeCount_def split_def numberSizeLoop.simps)
qed

text \<open>
  \<open>toKilobyte\<close> in integer arithmetic, and what rounding to two decimals means: a
  multiple of one hundredth at most half a hundredth away, the upper one at a tie.
\<close>

lemma toKilobyte_eq: "toKilobyte n = of_int ((25 * int n + 128) div 256) / 100"
proof -
  have "(of_nat n / 1024 * 100 + 1 / 2 :: rat) = of_int (25 * int n + 128) / of_int 256"
    by simp
  then have "\<lfloor>(of_nat n / 1024 * 100 + 1 / 2 :: rat)\<rfloor> = (25 * int n + 128) div 256"
    by (simp only: floor_divide_of_int_eq)
  then show ?thesis
    by (simp only: toKilobyte_def toFixed2_def)
qed

lemma toFixed2_nearest:
  "\<exists>m::int. toFixed2 x = of_int m / 100 \<and> x - 1 / 200 < toFixed2 x \<and> toFixed2 x \<le> x + 1 / 200"
proof -
  have "of_int \<lfloor>x * 100 + 1 / 2\<rfloor> \<le> x * 100 + 1 / 2"
    and "x * 100 + 1 / 2 < of_int \<lfloor>x * 100 + 1 / 2\<rfloor> + 1"
    by linarith+
  then have "x - 1 / 200 < toFixed2 x \<and> toFixed2 x \<le> x + 1 / 200"
    by (simp add: toFixed2_def)
  then show ?thesis
    by (auto simp: toFixed2_def)
qed

lemma toKilobyte_small: "n \<le> 5 \<Longrightarrow> toKilobyte n = 0"
  by (simp add: toKilobyte_eq)

lemma toKilobyte_1536: "toKilobyte 1536 = 3 / 2"
  by (simp add: toKilobyte_eq)

lemma itemSizeCount_object:
  "kvs \<noteq> [] \<Longrightarrow> itemSizeCount (JObj kvs) = Some \<lceil>toKilobyte (rawBytes kvs)\<rceil>"
  by (simp add: itemSizeCount_def itemSizeLoop_eq)

lemma utf8Length_replicate_x: "utf8Length (replicate n (CHR ''x'')) = n"
  by (induction n) (simp_all add: utf8Length_def)

text \<open>
  Claim C4. For a record with at least one property, \<open>itemSizeCount\<close> is the ceiling
  of the raw byte total divided by 1024 and rounded to two decimals (to the nearest
  hundredth, upwards at a tie); a record of 1536 raw bytes is reported as 2.
\<close>

theorem itemSizeCount_kilobytes_rounded_up:
  assumes "kvs \<noteq> []"
  shows "itemSizeCount (JObj kvs)
           = Some \<lceil>(of_int \<lfloor>(of_nat (rawBytes kvs) / 1024 :: rat) * 100 + 1 / 2\<rfloor> :: rat) / 100\<rceil>
       \<and> (rawBytes kvs = 1536 \<longrightarrow> itemSizeCount (JObj kvs) = Some 2)"
proof -
  have "itemSizeCount (JObj kvs) = Some \<lceil>toKilobyte (rawBytes kvs)\<rceil>"
    using assms by (rule itemSizeCount_object)
  moreover have "\<lceil>3 / 2 :: rat\<rceil> = 2"
    by (simp add: ceiling_eq_iff)
  ultimately show ?thesis
    by (simp add: toKilobyte_1536) (simp add: toKilobyte_def toFixed2_def)
qed

theorem itemSizeCount_kilobytes_rounded_up_witness:
  "rawBytes [(''a'', JStr (replicate 1535 (CHR ''x'')))] = 1536
   \<and> itemSizeCount (JObj [(''a'', JStr (replicate 1535 (CHR ''x'')))]) = Some 2"
proof -
  have raw: "rawBytes [(''a'', JStr (replicate 1535 (CHR ''x'')))] = 1536"
    by (simp add: rawBytes_def stringSizeCount_def utf8Length_replicate_x)
  have "rawBytes [(''a'', JStr (replicate 1535 (CHR ''x'')))] = 1536
      \<longrightarrow> itemSizeCount (JObj [(''a'', JStr (replicate 1535 (CHR ''x'')))]) = Some 2"
    using itemSizeCount_kilobytes_rounded_up[of "[(''a'', JStr (replicate 1535 (CHR ''x'')))]"]
    by blast
  with raw show ?thesis by blast
qed

text \<open>
  Claim C9, as the code has it. \<open>itemSizeCount\<close> returns \<^verbatim>\<open>undefined\<close> exactly for an
  object without properties, an empty array, and a value that is no object at all
  (a string, a number, a boolean, \<^verbatim>\<open>null\<close>, \<^verbatim>\<open>undefined\<close>). An array is an instance of
  \<^verbatim>\<open>Object\<close>: one with elements is sized with its indices as keys.
\<close>

theorem itemSizeCount_undefined_iff:
  "itemSizeCount v = None \<longleftrightarrow> (v = JObj [] \<or> v = JArr [] \<or> \<not> isObject v)"
  by (cases v) (auto simp: itemSizeCount_def arrayEntries_def)

theorem itemSizeCount_undefined_iff_witness:
  "itemSizeCount (JObj []) = None \<and> itemSizeCount (JArr []) = None
   \<and> itemSizeCount (JStr ''abc'') = None \<and> itemSizeCount JNull = None
   \<and> itemSizeCount (JObj [(''a'', JNull)]) \<noteq> None"
  using itemSizeCount_undefined_iff[of "JObj []"] itemSizeCount_undefined_iff[of "JArr []"]
    itemSizeCount_undefined_iff[of "JStr ''abc''"] itemSizeCount_undefined_iff[of JNull]
    itemSizeCount_undefined_iff[of "JObj [(''a'', JNull)]"]
  by simp

text \<open>
  Claim C9 as stated fails at a list, which is not a mapping:
  \<^verbatim>\<open>itemSizeCount(["x"])\<close> is the number 0.
\<close>

theorem itemSizeCount_array_is_zero: "itemSizeCount (JArr [JStr ''x'']) = Some 0"
  by (simp add: itemSizeCount_def arrayEntries_def natToString.simps stringSizeCount_def
      utf8Length_def toKilobyte_eq)

text \<open>
  The kilobyte figure is 0.00 for a raw byte total of at most 5, and for no other.
\<close>

lemma toKilobyte_zero_iff: "(toKilobyte n = 0) = (n \<le> 5)"
proof (cases "n \<le> 5")
  case True
  then have "(25 * int n + 128) div 256 = 0"
    by (intro div_pos_pos_trivial) simp_all
  with True show ?thesis
    by (simp add: toKilobyte_eq)
next
  case False
  then have "(256 :: int) \<le> 25 * int n + 128"
    by simp
  then have "(256 :: int) div 256 \<le> (25 * int n + 128) div 256"
    by (intro zdiv_mono1) simp_all
  with False show ?thesis
    by (simp add: toKilobyte_eq)
qed

lemma toKilobyte_ceiling_zero_iff: "(\<lceil>toKilobyte n\<rceil> = 0) = (toKilobyte n = 0)"
proof -
  have "0 \<le> (25 * int n + 128) div 256"
    by (simp add: pos_imp_zdiv_nonneg_iff)
  then have "0 \<le> toKilobyte n"
    by (simp add: toKilobyte_eq)
  then show ?thesis
    by (auto simp: ceiling_eq_iff)
qed

text \<open>
  Claim C10. A record with at least one property and a raw byte total of at most 5
  converts to 0.00 kilobytes and \<open>itemSizeCount\<close> returns the number 0, not
  \<^verbatim>\<open>undefined\<close>; \<open>{a: ""}\<close>, of raw size 1, is such a record. Conversely a record
  for which \<open>itemSizeCount\<close> returns 0 has at least one property and a raw byte total
  of at most 5: from 6 raw bytes on the kilobyte figure is not 0.00 and the result is
  not 0.
\<close>

theorem itemSizeCount_zero_for_small_records:
  "(itemSizeCount (JObj kvs) = Some 0) = (kvs \<noteq> [] \<and> rawBytes kvs \<le> 5)
   \<and> (toKilobyte (rawBytes kvs) = 0) = (rawBytes kvs \<le> 5)
   \<and> (kvs \<noteq> [] \<longrightarrow> itemSizeCount (JObj kvs) \<noteq> None)"
proof (cases "kvs = []")
  case True
  then show ?thesis
    by (simp add: itemSizeCount_def toKilobyte_zero_iff)
next
  case False
  then have "itemSizeCount (JObj kvs) = Some \<lceil>toKilobyte (rawBytes kvs)\<rceil>"
    by (rule itemSizeCount_object)
  with False show ?thesis
    by (simp add: toKilobyte_ceiling_zero_iff toKilobyte_zero_iff)
qed

theorem itemSizeCount_zero_for_small_records_witness:
  "rawBytes [(''a'', JStr [])] = 1
   \<and> toKilobyte (rawBytes [(''a'', JStr [])]) = 0
   \<and> itemSizeCount (JObj [(''a'', JStr [])]) = Some 0
   \<and> itemSizeCount (JObj [(''a'', JStr [])]) \<noteq> None
   \<and> rawBytes [(''a'', JStr ''hello'')] = 6
   \<and> toKilobyte (rawBytes [(''a'', JStr ''hello'')]) \<noteq> 0
   \<and> itemSizeCount (JObj [(''a'', JStr ''hello'')]) \<noteq> Some 0"
proof -
  have raw: "rawBytes [(''a'', JStr [])] = 1" "rawBytes [(''a'', JStr ''hello'')] = 6"
    by (simp_all add: rawBytes_def stringSizeCount_def utf8Length_def)
  from itemSizeCount_zero_for_small_records[of "[(''a'', JStr [])]"]
    itemSizeCount_zero_for_small_records[of "[(''a'', JStr ''hello'')]"] raw
  show ?thesis by simp
qed

section \<open>Properties of path resolution\<close>

text \<open>
  Claim C6 at three malformed calls, each of which raises a TypeError.
  \<^verbatim>\<open>toArrayPath({a: []}, 123)\<close>: the path is a number, and \<^verbatim>\<open>propertyString.split\<close> is
  called before the checks are used.
  \<^verbatim>\<open>toStringPath({a: [{b: []}]}, ["a", "zzz"])\<close>: the token \<open>zzz\<close> does not resolve,
  \<open>find\<close> returns \<^verbatim>\<open>undefined\<close>, and \<^verbatim>\<open>nextPathObject.hasOwnProperty\<close> is called on it.
  \<^verbatim>\<open>getAttributeAtPath(null, "a")\<close>: \<^verbatim>\<open>item.hasOwnProperty\<close> is called before
  \<open>objectCheck\<close> is used.
\<close>

theorem path_functions_raise:
  "toArrayPath (JObj [(''a'', JArr [])]) (JNum (Dec False 123 0)) ''.'' = Inl TypeError
   \<and> toStringPath (JObj [(''a'', JArr [JObj [(''b'', JArr [])]])])
         (JArr [JStr ''a'', JStr ''zzz'']) ''.'' = Inl TypeError
   \<and> (\<forall>tokenFinite tokenLess.
         getAttributeAtPath tokenFinite tokenLess JNull (JStr ''a'') JUndef = Inl TypeError)"
  by (simp add: toArrayPath_def toStringPath_def getAttributeAtPath_def split_def)

theorem path_functions_raise_witness:
  "toArrayPath (JObj [(''a'', JArr [])]) (JNum (Dec False 123 0)) ''.'' = Inl TypeError
   \<and> getAttributeAtPath decimalFinite decimalLess JNull (JStr ''a'') JUndef = Inl TypeError"
  using path_functions_raise by blast

text \<open>
  Claim C7 at \<^verbatim>\<open>getAttributeAtPath({a: {M: {b: {S: "x"}}}}, ["a", "zzz", "b"])\<close>: the
  token \<open>zzz\<close> does not resolve after \<open>a\<close> did, the loop goes on with the map it had
  reached, \<open>b\<close> resolves there, and the attribute \<open>{S: "x"}\<close> is returned, not
  \<^verbatim>\<open>false\<close>. Only a last token that does not resolve sets the result to \<^verbatim>\<open>false\<close>.
\<close>

theorem getAttributeAtPath_skips_unresolved_token:
  "\<forall>tokenFinite tokenLess.
     getAttributeAtPath tokenFinite tokenLess
       (JObj [(''a'', JObj [(''M'', JObj [(''b'', JObj [(''S'', JStr ''x'')])])])])
       (JArr [JStr ''a'', JStr ''zzz'', JStr ''b'']) JUndef
     = Inr (JObj [(''S'', JStr ''x'')])"
  by (simp add: getAttributeAtPath_def objectKeys_def nextAttributeFound_def)

theorem getAttributeAtPath_skips_unresolved_token_witness:
  "getAttributeAtPath decimalFinite decimalLess
     (JObj [(''a'', JObj [(''M'', JObj [(''b'', JObj [(''S'', JStr ''x'')])])])])
     (JArr [JStr ''a'', JStr ''zzz'', JStr ''b'']) JUndef
   \<noteq> Inr (JBool False)"
  using getAttributeAtPath_skips_unresolved_token by simp

text \<open>
  Claim C8 at \<^verbatim>\<open>hasPropertyAtPath({a: {a: 1}}, ["a", "a"])\<close>: both tokens name own
  properties along the descent, and the code returns \<^verbatim>\<open>false\<close>. The loop tries every
  token, not only the first, on \<open>item\<close> itself: the second \<open>a\<close> is an own property of
  \<open>item\<close> too, and the call on the empty rest of the path overwrites the result.
  For the same reason \<^verbatim>\<open>hasPropertyAtPath({a: {b: 1}}, ["x", "a", "b"])\<close> is
  \<^verbatim>\<open>true\<close> although \<open>x\<close> is no property of \<open>item\<close>; and a descent that reaches
  \<^verbatim>\<open>null\<close>, \<^verbatim>\<open>hasPropertyAtPath({a: null}, ["a", "b"])\<close>, raises a TypeError.
\<close>

theorem hasPropertyAtPath_misses_path:
  "hasPropertyAtPath (JObj [(''a'', JObj [(''a'', JNum (Dec False 1 0))])])
     (JArr [JStr ''a'', JStr ''a'']) JUndef = Inr False
   \<and> hasPropertyAtPath (JObj [(''a'', JObj [(''b'', JNum (Dec False 1 0))])])
         (JArr [JStr ''x'', JStr ''a'', JStr ''b'']) JUndef = Inr True
   \<and> hasPropertyAtPath (JObj [(''a'', JNull)]) (JArr [JStr ''a'', JStr ''b'']) JUndef
       = Inl TypeError"
  by (simp add: hasPropertyAtPath_def hasPropertyAtPathArray.simps)

section \<open>The round trip from the index to the attribute tree\<close>

subsection \<open>Array indices in decimal\<close>

lemma digit_char: "d < 10 \<Longrightarrow> of_char (''0123456789'' ! d) = (48 + d :: nat)"
proof -
  assume "d < 10"
  then have "d \<in> {0,1,2,3,4,5,6,7,8,9}" by auto
  then show ?thesis by auto
qed

lemma decimalValue_snoc: "decimalValue (t @ [c]) = 10 * decimalValue t + (of_char c - 48)"
  by (simp add: decimalValue_def)

lemma decimalValue_natToString: "decimalValue (natToString n) = n"
proof (induction n rule: natToString.induct)
  case (1 n)
  show ?case
  proof (cases "n < 10")
    case True
    then show ?thesis
      by (simp add: natToString.simps[of n] decimalValue_def digit_char)
  next
    case False
    then have "decimalValue (natToString n) = 10 * (n div 10) + n mod 10"
      using 1 by (simp add: natToString.simps[of n] decimalValue_snoc digit_char)
    then show ?thesis by simp
  qed
qed

lemma natToString_inj: "natToString i = natToString j \<Longrightarrow> i = j"
  by (metis decimalValue_natToString)

lemma natToString_digits: "list_all (\<lambda>c. c \<in> set ''0123456789'') (natToString n)"
proof (induction n rule: natToString.induct)
  case (1 n)
  have d: "\<And>d. d < 10 \<Longrightarrow> ''0123456789'' ! d \<in> set ''0123456789''"
    by (rule nth_mem) simp
  show ?case
  proof (cases "n < 10")
    case True
    then show ?thesis using d[of n]
      by (simp add: natToString.simps[of n] del: set_simps list.set)
  next
    case False
    then show ?thesis using 1 d[of "n mod 10"]
      by (simp add: natToString.simps[of n] del: set_simps list.set)
  qed
qed

lemma natToString_nonempty: "natToString n \<noteq> []"
  by (subst natToString.simps) simp

lemma decimal_coercion:
  "(decimalFinite (natToString i) \<and> decimalLess (natToString i) (JNum (Dec False n 0))) = (i < n)"
proof -
  have "decimalFinite (natToString i)"
    unfolding decimalFinite_def using natToString_digits[of i] natToString_nonempty[of i]
    by blast
  then show ?thesis
    by (simp add: decimalLess_def decimalValue_natToString)
qed

subsection \<open>The attribute tree below a value\<close>

lemma natToString_not_length: "natToString i \<noteq> ''length''"
proof
  assume "natToString i = ''length''"
  then have "list_all (\<lambda>c. c \<in> set ''0123456789'') ''length''"
    using natToString_digits[of i] by simp
  then show False by simp
qed

lemma arrayEntries_keys: "map fst (arrayEntries xs) = map natToString [0..<length xs]"
  by (simp add: arrayEntries_def)

lemma distinct_arrayEntries: "distinct (map fst (arrayEntries xs))"
  by (auto simp: arrayEntries_keys distinct_map inj_on_def dest: natToString_inj)

lemma arrayEntries_map: "arrayEntries (map f xs) = map (\<lambda>(k, x). (k, f x)) (arrayEntries xs)"
  by (simp add: arrayEntries_def zip_map2)

lemma map_of_arrayEntries:
  "map_of (arrayEntries xs) t = Some c \<longleftrightarrow> (\<exists>i<length xs. t = natToString i \<and> c = xs ! i)"
proof
  assume "map_of (arrayEntries xs) t = Some c"
  then have "(t, c) \<in> set (zip (map natToString [0..<length xs]) xs)"
    unfolding arrayEntries_def by (rule map_of_SomeD)
  then show "\<exists>i<length xs. t = natToString i \<and> c = xs ! i"
    by (auto simp: in_set_zip)
next
  assume "\<exists>i<length xs. t = natToString i \<and> c = xs ! i"
  then obtain i where i: "i < length xs" "t = natToString i" "c = xs ! i" by blast
  have "map_of (zip (map natToString [0..<length xs]) xs) (map natToString [0..<length xs] ! i)
      = Some (xs ! i)"
    using i(1) distinct_arrayEntries[of xs]
    by (intro map_of_zip_nth) (simp_all add: arrayEntries_keys)
  with i show "map_of (arrayEntries xs) t = Some c"
    by (simp add: arrayEntries_def)
qed

lemma indexable_unfold:
  "indexable v =
     ((case v of
         JArr xs \<Rightarrow>
           list_all (\<lambda>x. case getProperty x ''1'' of Inl e \<Rightarrow> False | Inr p1 \<Rightarrow> \<not> isObject p1) xs
       | JObj kvs \<Rightarrow> distinct (map fst kvs) \<and> ''hasOwnProperty'' \<notin> set (map fst kvs)
       | _ \<Rightarrow> True)
      \<and> list_all (\<lambda>kc. indexable (snd kc)) (children v))"
proof -
  have "list_all (\<lambda>kc. indexable (snd kc)) (children v)
      = (list_all (\<lambda>kc. plainKeys (snd kc)) (children v)
         \<and> list_all (\<lambda>kc. listsIndexable (snd kc)) (children v))"
    by (auto simp: list_all_iff indexable_def)
  then show ?thesis
    unfolding indexable_def
    by (subst plainKeys.simps, subst listsIndexable.simps) (auto split: jsval.splits)
qed

lemma indexable_JObj:
  "indexable (JObj kvs) =
     (distinct (map fst kvs) \<and> ''hasOwnProperty'' \<notin> set (map fst kvs)
      \<and> list_all (\<lambda>kc. indexable (snd kc)) kvs)"
  by (simp add: indexable_unfold[of "JObj kvs"])

lemma indexable_JArr:
  "indexable (JArr xs) =
     (list_all (\<lambda>x. case getProperty x ''1'' of Inl e \<Rightarrow> False | Inr p1 \<Rightarrow> \<not> isObject p1) xs
      \<and> list_all indexable xs)"
proof -
  have "map snd (arrayEntries xs) = xs"
    by (simp add: arrayEntries_def)
  then have "list_all indexable (map snd (arrayEntries xs)) = list_all indexable xs"
    by simp
  then have "list_all (\<lambda>kc. indexable (snd kc)) (arrayEntries xs) = list_all indexable xs"
    by (simp add: list_all_iff)
  then show ?thesis
    by (simp add: indexable_unfold[of "JArr xs"])
qed

lemma children_distinct: "indexable v \<Longrightarrow> distinct (map fst (children v))"
  by (cases v) (auto simp: indexable_JObj distinct_arrayEntries)

lemma indexable_child: "indexable v \<Longrightarrow> map_of (children v) t = Some c \<Longrightarrow> indexable c"
  by (cases v) (auto simp: indexable_JObj indexable_JArr list_all_iff map_of_arrayEntries dest!: map_of_SomeD)

lemma createAttribute_cases:
  "(\<exists>xs. c = JArr xs \<and> createAttribute c = JObj [(''L'', foundOf c)])
   \<or> (\<exists>kvs. c = JObj kvs \<and> kvs \<noteq> [] \<and> createAttribute c = JObj [(''M'', foundOf c)])
   \<or> (children c = [] \<and> foundOf c = createAttribute c
       \<and> (\<exists>tag val. tag \<in> {''S'', ''N'', ''NULL'', ''BOOL''} \<and> createAttribute c = JObj [(tag, val)]))"
  by (cases c) (auto simp: nullAttribute_eq Let_def arrayEntries_def)

lemma ownProperties_foundOf:
  "children v \<noteq> [] \<Longrightarrow>
   \<exists>extra. ownProperties (foundOf v) = map (\<lambda>(k, c). (k, createAttribute c)) (children v) @ extra"
  by (cases v) (auto simp: arrayEntries_map)

lemma map_of_found:
  assumes "map_of (children v) t = Some c"
  shows "map_of (ownProperties (foundOf v)) t = Some (createAttribute c)"
proof -
  from assms have "children v \<noteq> []" by auto
  then obtain extra
    where "ownProperties (foundOf v) = map (\<lambda>(k, c). (k, createAttribute c)) (children v) @ extra"
    using ownProperties_foundOf by blast
  moreover have "map_of (map (\<lambda>(k, c). (k, createAttribute c)) (children v)) t = Some (createAttribute c)"
    using assms by (simp add: map_of_map)
  ultimately show ?thesis by simp
qed

lemma hasOwnProperty_found:
  assumes "indexable v" and "map_of (children v) t = Some c"
  shows "hasOwnProperty (foundOf v) t = Inr True"
proof -
  have m: "map_of (ownProperties (foundOf v)) t = Some (createAttribute c)"
    using assms(2) by (rule map_of_found)
  then have k: "t \<in> set (map fst (ownProperties (foundOf v)))"
    by (metis domI dom_map_of_conv_image_fst set_map)
  show ?thesis
  proof (cases v)
    case (JObj kvs)
    with assms have "kvs \<noteq> []" "''hasOwnProperty'' \<notin> set (map fst kvs)"
      by (auto simp: indexable_JObj)
    with JObj k show ?thesis by (auto simp: comp_def case_prod_unfold)
  next
    case (JArr xs)
    with k show ?thesis by simp
  qed (use assms in auto)
qed

lemma getProperty_found:
  assumes "map_of (children v) t = Some c"
  shows "getProperty (foundOf v) t = Inr (createAttribute c)"
proof -
  have m: "map_of (ownProperties (foundOf v)) t = Some (createAttribute c)"
    using assms by (rule map_of_found)
  from assms have "children v \<noteq> []" by auto
  then have "foundOf v \<noteq> JUndef \<and> foundOf v \<noteq> JNull"
    by (cases v) auto
  with m show ?thesis
    by (cases "foundOf v") simp_all
qed

subsection \<open>Walking the attribute tree along a path of the value\<close>

lemma getProperty_length: "getProperty (JArr ys) ''length'' = Inr (JNum (Dec False (length ys) 0))"
proof -
  have "map_of (arrayEntries ys) ''length'' = None"
    using map_of_arrayEntries[of ys "''length''"] natToString_not_length
    by (metis not_Some_eq)
  then show ?thesis
    by (simp add: map_add_def)
qed

lemma nextAttributeFound_descend:
  assumes co: "tokenCoercion tokenFinite tokenLess"
    and ts: "ts = [] \<or> descend c ts \<noteq> None"
  shows "\<exists>tag. objectKeys (createAttribute c) = Inr [tag]
           \<and> nextAttributeFound tokenFinite tokenLess af (createAttribute c) [tag] ts = Inr (foundOf c)"
proof -
  consider
    (L) xs where "c = JArr xs" "createAttribute c = JObj [(''L'', foundOf c)]"
  | (M) kvs where "c = JObj kvs" "kvs \<noteq> []" "createAttribute c = JObj [(''M'', foundOf c)]"
  | (S) tag val where "children c = []" "foundOf c = createAttribute c"
      "tag \<in> {''S'', ''N'', ''NULL'', ''BOOL''}" "createAttribute c = JObj [(tag, val)]"
    using createAttribute_cases[of c] by blast
  then show ?thesis
  proof cases
    case L
    have keys: "objectKeys (createAttribute c) = Inr [''L'']"
      using L(2) by (simp add: objectKeys_def)
    have "nextAttributeFound tokenFinite tokenLess af (createAttribute c) [''L''] ts = Inr (foundOf c)"
    proof (cases "length ts > 1")
      case False
      then show ?thesis
        using L(2) by (simp add: nextAttributeFound_def)
    next
      case True
      then obtain t ts' where t: "ts = t # ts'" by (cases ts) auto
      with ts L(1) obtain i where i: "i < length xs" "t = natToString i"
        by (auto simp: map_of_arrayEntries split: option.splits)
      with co have "tokenFinite t" "tokenLess t (JNum (Dec False (length xs) 0))"
        by (auto simp: tokenCoercion_def)
      moreover have "getProperty (foundOf c) ''length'' = Inr (JNum (Dec False (length xs) 0))"
        using L(1) getProperty_length[of "map createAttribute xs"] by simp
      ultimately show ?thesis
        using L(2) True t by (simp add: nextAttributeFound_def)
    qed
    with keys show ?thesis by blast
  next
    case M
    have "objectKeys (createAttribute c) = Inr [''M'']"
      using M(3) by (simp add: objectKeys_def)
    moreover have "nextAttributeFound tokenFinite tokenLess af (createAttribute c) [''M''] ts
        = Inr (foundOf c)"
      using M(3) by (simp add: nextAttributeFound_def)
    ultimately show ?thesis by blast
  next
    case S
    have "objectKeys (createAttribute c) = Inr [tag]"
      using S(4) by (simp add: objectKeys_def)
    moreover have "nextAttributeFound tokenFinite tokenLess af (createAttribute c) [tag] ts
        = Inr (foundOf c)"
      using S(2,3) by (auto simp: nextAttributeFound_def)
    ultimately show ?thesis by blast
  qed
qed

lemma attributeLoop_descend:
  assumes co: "tokenCoercion tokenFinite tokenLess"
  shows "indexable v \<Longrightarrow> descend v path = Some target \<Longrightarrow> path \<noteq> [] \<Longrightarrow>
    attributeLoop tokenFinite tokenLess (foundOf v) ret path = Inr (createAttribute target)"
proof (induction path arbitrary: v ret)
  case Nil
  then show ?case by simp
next
  case (Cons t ts)
  from Cons.prems(2) obtain c where c: "map_of (children v) t = Some c" "descend c ts = Some target"
    by (auto split: option.splits)
  have has: "hasOwnProperty (foundOf v) t = Inr True"
    using Cons.prems(1) c(1) by (rule hasOwnProperty_found)
  have get: "getProperty (foundOf v) t = Inr (createAttribute c)"
    using c(1) by (rule getProperty_found)
  from c(2) have "ts = [] \<or> descend c ts \<noteq> None" by simp
  with co obtain tag where tag: "objectKeys (createAttribute c) = Inr [tag]"
    "nextAttributeFound tokenFinite tokenLess (foundOf v) (createAttribute c) [tag] ts = Inr (foundOf c)"
    using nextAttributeFound_descend by blast
  have step: "attributeLoop tokenFinite tokenLess (foundOf v) ret (t # ts)
      = attributeLoop tokenFinite tokenLess (foundOf c) (createAttribute c) ts"
    using has get tag by simp
  show ?case
  proof (cases "ts = []")
    case True
    with step c(2) show ?thesis by simp
  next
    case False
    have "indexable c"
      using Cons.prems(1) c(1) by (rule indexable_child)
    then have "attributeLoop tokenFinite tokenLess (foundOf c) (createAttribute c) ts
        = Inr (createAttribute target)"
      using c(2) False by (rule Cons.IH)
    with step show ?thesis by simp
  qed
qed

lemma stringsOf_strings: "stringsOf (map JStr path) = Some path"
  by (induction path) simp_all

lemma getAttributeAtPath_descend:
  assumes co: "tokenCoercion tokenFinite tokenLess"
    and ix: "indexable (JObj kvs)"
    and d: "descend (JObj kvs) path = Some target"
    and ne: "path \<noteq> []"
  shows "createAttribute (JObj kvs) = JObj [(''M'', foundOf (JObj kvs))]
    \<and> getAttributeAtPath tokenFinite tokenLess (foundOf (JObj kvs)) (JArr (map JStr path)) JUndef
        = Inr (createAttribute target)"
proof -
  from ne obtain t ts where path: "path = t # ts" by (cases path) auto
  with d obtain c where c: "map_of kvs t = Some c"
    by (auto split: option.splits)
  then have kvs: "kvs \<noteq> []" by auto
  have has: "hasOwnProperty (foundOf (JObj kvs)) t = Inr True"
    using ix c hasOwnProperty_found[of "JObj kvs" t c] by simp
  have loop: "attributeLoop tokenFinite tokenLess (foundOf (JObj kvs)) (foundOf (JObj kvs)) path
      = Inr (createAttribute target)"
    using co ix d ne by (rule attributeLoop_descend)
  have obj: "isObject (foundOf (JObj kvs))"
    using kvs by simp
  have "getAttributeAtPath tokenFinite tokenLess (foundOf (JObj kvs)) (JArr (map JStr path)) JUndef
      = Inr (createAttribute target)"
    unfolding getAttributeAtPath_def using has loop obj path
    by (simp add: stringsOf_strings[of "t # ts", simplified])
  moreover have "createAttribute (JObj kvs) = JObj [(''M'', foundOf (JObj kvs))]"
    using kvs by (simp add: Let_def)
  ultimately show ?thesis by blast
qed

lemma createAttribute_not_false: "createAttribute v \<noteq> JBool False"
  by (cases v) (auto simp: nullAttribute_eq Let_def)

subsection \<open>The paths of an index are paths of the value\<close>

lemma map_of_index_entries:
  "map_of (map (\<lambda>kc. (fst kc, f (snd kc))) es) t = map_option f (map_of es t)"
  by (induction es) auto

lemma pathInIndex_descend:
  "distinct (map fst es) \<Longrightarrow> list_all (\<lambda>kc. indexable (snd kc)) es \<Longrightarrow>
   pathInIndex (indexOf es) path \<Longrightarrow>
   \<exists>t ts c target. path = t # ts \<and> map_of es t = Some c \<and> descend c ts = Some target"
proof (induction path arbitrary: es)
  case Nil
  then show ?case by simp
next
  case (Cons t ts)
  from Cons.prems(3) obtain steps
    where steps: "map_of (map (\<lambda>kc. (fst kc, JArr (shapeIndex (snd kc)))) es) t = Some (JArr steps)"
      and rest: "ts = [] \<or> list_ex (\<lambda>step. pathInIndex step ts) steps"
    by (auto simp: indexOf_def split: option.splits jsval.splits)
  from steps obtain c where c: "map_of es t = Some c" "steps = shapeIndex c"
    using map_of_index_entries[of "\<lambda>x. JArr (shapeIndex x)" es t] by auto
  from Cons.prems(2) c(1) have ixc: "indexable c"
    by (auto simp: list_all_iff dest!: map_of_SomeD)
  show ?case
  proof (cases "ts = []")
    case True
    with c show ?thesis by simp
  next
    case False
    with rest c(2) obtain kc where kc: "kc \<in> set (children c)"
      "pathInIndex (JObj [(fst kc, JArr (shapeIndex (snd kc)))]) ts"
      by (auto simp: shapeIndex.simps[of c] list_ex_iff)
    have "indexable (snd kc)"
      using ixc kc(1) by (auto simp: indexable_unfold[of c] list_all_iff)
    then have "\<exists>t' ts' c' target.
        ts = t' # ts' \<and> map_of [kc] t' = Some c' \<and> descend c' ts' = Some target"
      using kc(2) by (intro Cons.IH) (simp_all add: indexOf_def)
    then obtain ts' target where t': "ts = fst kc # ts'" "descend (snd kc) ts' = Some target"
      by (cases kc) (auto split: if_splits)
    have "map_of (children c) (fst kc) = Some (snd kc)"
      using children_distinct[OF ixc] kc(1) by (cases kc) (simp add: map_of_is_SomeI del: children.simps)
    with t' have "descend c ts = Some target" by simp
    with c(1) show ?thesis by simp
  qed
qed

subsection \<open>The index of an indexable record\<close>

lemma foldr_max_ge: "x \<in> set xs \<Longrightarrow> x \<le> foldr max xs (0::nat)"
  by (induction xs) (auto simp: max_def)

lemma nesting_child: "kc \<in> set (children v) \<Longrightarrow> Suc (nesting (snd kc)) \<le> nesting v"
  by (subst nesting.simps[of v]) (auto intro!: foldr_max_ge)

lemma arrayLoop_shape:
  assumes "\<forall>x\<in>set xs. (\<exists>p1. getProperty x ''1'' = Inr p1 \<and> \<not> isObject p1)
      \<and> (\<forall>key. self (JObj [(key, x)]) = Some (Inr (JObj [(key, JArr (shapeIndex x))])))"
  shows "arrayLoop self acc i xs
    = Some (Inr (acc @ map (\<lambda>kc. JObj [(fst kc, JArr (shapeIndex (snd kc)))])
                          (zip (map natToString [i..<i + length xs]) xs)))"
  using assms
proof (induction xs arbitrary: acc i)
  case Nil
  then show ?case by simp
next
  case (Cons x xs)
  from Cons.prems obtain p1 where p1: "getProperty x ''1'' = Inr p1" "\<not> isObject p1"
    by auto
  from Cons.prems have self: "self (JObj [(natToString i, x)])
      = Some (Inr (JObj [(natToString i, JArr (shapeIndex x))]))"
    by auto
  have "arrayLoop self acc i (x # xs)
      = arrayLoop self (acc @ [JObj [(natToString i, JArr (shapeIndex x))]]) (Suc i) xs"
    using p1 self by simp
  also have "\<dots> = Some (Inr ((acc @ [JObj [(natToString i, JArr (shapeIndex x))]])
      @ map (\<lambda>kc. JObj [(fst kc, JArr (shapeIndex (snd kc)))])
            (zip (map natToString [Suc i..<Suc i + length xs]) xs)))"
    using Cons.prems by (intro Cons.IH) auto
  finally have "arrayLoop self acc i (x # xs)
      = Some (Inr (acc @ JObj [(natToString i, JArr (shapeIndex x))]
          # map (\<lambda>kc. JObj [(fst kc, JArr (shapeIndex (snd kc)))])
                (zip (map natToString [Suc i..<Suc i + length xs]) xs)))"
    by simp
  moreover have "[i..<i + length (x # xs)] = i # [Suc i..<Suc i + length xs]"
    by (subst upt_conv_Cons) simp_all
  ultimately show ?case
    by (simp only: zip_Cons_Cons list.map fst_conv snd_conv)
qed

lemma objectLoop_shape:
  assumes "\<forall>kc\<in>set kvs. self (JObj [(fst kc, snd kc)])
      = Some (Inr (JObj [(fst kc, JArr (shapeIndex (snd kc)))]))"
  shows "objectLoop self acc kvs
    = Some (Inr (acc @ map (\<lambda>kc. JObj [(fst kc, JArr (shapeIndex (snd kc)))]) kvs))"
  using assms by (induction kvs arbitrary: acc) auto

lemma shapeIndex_leaf: "children v = [] \<Longrightarrow> shapeIndex v = []"
  by (simp add: shapeIndex.simps[of v])

lemma pathsArrayOf_shape:
  assumes ix: "indexable v"
    and self: "\<forall>kc\<in>set (children v). \<forall>key.
      self (JObj [(key, snd kc)]) = Some (Inr (JObj [(key, JArr (shapeIndex (snd kc)))]))"
  shows "pathsArrayOf self v = Some (Inr (shapeIndex v))"
proof (cases v)
  case (JArr xs)
  have "map snd (arrayEntries xs) = xs"
    by (simp add: arrayEntries_def)
  then have "set xs = snd ` set (children v)"
    using JArr by (metis children.simps(1) set_map)
  with self have "\<forall>x\<in>set xs. \<forall>key.
      self (JObj [(key, x)]) = Some (Inr (JObj [(key, JArr (shapeIndex x))]))"
    by auto
  moreover have "\<forall>x\<in>set xs. \<exists>p1. getProperty x ''1'' = Inr p1 \<and> \<not> isObject p1"
  proof
    fix x
    assume "x \<in> set xs"
    with ix JArr have "case getProperty x ''1'' of Inl e \<Rightarrow> False | Inr p1 \<Rightarrow> \<not> isObject p1"
      by (simp add: indexable_JArr list_all_iff)
    then show "\<exists>p1. getProperty x ''1'' = Inr p1 \<and> \<not> isObject p1"
      by (cases "getProperty x ''1''") auto
  qed
  ultimately have "arrayLoop self [] 0 xs
    = Some (Inr ([] @ map (\<lambda>kc. JObj [(fst kc, JArr (shapeIndex (snd kc)))])
                          (zip (map natToString [0..<0 + length xs]) xs)))"
    by (intro arrayLoop_shape) blast
  then show ?thesis
    using JArr by (simp add: pathsArrayOf_def shapeIndex.simps[of "JArr xs"] arrayEntries_def)
next
  case (JObj kvs)
  with self have "objectLoop self [] kvs
    = Some (Inr ([] @ map (\<lambda>kc. JObj [(fst kc, JArr (shapeIndex (snd kc)))]) kvs))"
    by (intro objectLoop_shape) auto
  then show ?thesis
    using JObj by (simp add: pathsArrayOf_def shapeIndex.simps[of "JObj kvs"])
qed (simp_all add: pathsArrayOf_def shapeIndex_leaf)

lemma propertyLoop_shape:
  assumes "distinct (map fst acc @ map fst kvs)"
    and "\<forall>kc\<in>set kvs. pathsArrayOf self (snd kc) = Some (Inr (shapeIndex (snd kc)))"
  shows "propertyLoop self acc kvs
    = Some (Inr (JObj (acc @ map (\<lambda>kc. (fst kc, JArr (shapeIndex (snd kc)))) kvs)))"
  using assms
proof (induction kvs arbitrary: acc)
  case Nil
  then show ?case by simp
next
  case (Cons kv kvs)
  obtain k v where kv: "kv = (k, v)" by (cases kv)
  with Cons.prems have pa: "pathsArrayOf self v = Some (Inr (shapeIndex v))"
    by simp
  from Cons.prems kv have new: "k \<notin> fst ` set acc"
    by auto
  have "propertyLoop self acc (kv # kvs)
      = propertyLoop self (acc @ [(k, JArr (shapeIndex v))]) kvs"
    using pa new kv by (simp add: pathsArrayOf_def addObjectProperty_new)
  also have "\<dots> = Some (Inr (JObj ((acc @ [(k, JArr (shapeIndex v))])
      @ map (\<lambda>kc. (fst kc, JArr (shapeIndex (snd kc)))) kvs)))"
    using Cons.prems kv by (intro Cons.IH) auto
  finally show ?case
    using kv by simp
qed

lemma getPropertyPaths_entry:
  "indexable v \<Longrightarrow> nesting v < depth \<Longrightarrow>
   getPropertyPaths depth (JObj [(key, v)]) = Some (Inr (JObj [(key, JArr (shapeIndex v))]))"
proof (induction v arbitrary: depth key rule: shapeIndex.induct)
  case (1 v)
  from "1.prems"(2) obtain d where d: "depth = Suc d"
    by (cases depth) auto
  have "\<forall>kc\<in>set (children v). \<forall>key. getPropertyPaths d (JObj [(key, snd kc)])
      = Some (Inr (JObj [(key, JArr (shapeIndex (snd kc)))]))"
  proof (intro ballI allI)
    fix kc key
    assume kc: "kc \<in> set (children v)"
    then have "indexable (snd kc)"
      using "1.prems"(1) by (auto simp: indexable_unfold[of v] list_all_iff)
    moreover have "nesting (snd kc) < d"
      using nesting_child[OF kc] "1.prems"(2) d by simp
    ultimately show "getPropertyPaths d (JObj [(key, snd kc)])
        = Some (Inr (JObj [(key, JArr (shapeIndex (snd kc)))]))"
      using kc by (intro "1.IH")
  qed
  with "1.prems"(1) have "pathsArrayOf (getPropertyPaths d) v = Some (Inr (shapeIndex v))"
    by (rule pathsArrayOf_shape)
  then have "propertyLoop (getPropertyPaths d) [] [(key, v)]
      = Some (Inr (JObj ([] @ map (\<lambda>kc. (fst kc, JArr (shapeIndex (snd kc)))) [(key, v)])))"
    by (intro propertyLoop_shape) simp_all
  with d show ?case by simp
qed

lemma getPropertyPaths_record:
  assumes ix: "indexable (JObj kvs)" and depth: "nesting (JObj kvs) < depth"
  shows "getPropertyPaths depth (JObj kvs) = Some (Inr (indexOf kvs))"
proof -
  from depth obtain d where d: "depth = Suc d"
    by (cases depth) auto
  have "\<forall>kc\<in>set kvs. pathsArrayOf (getPropertyPaths d) (snd kc) = Some (Inr (shapeIndex (snd kc)))"
  proof
    fix kc
    assume kc: "kc \<in> set kvs"
    then have ixv: "indexable (snd kc)"
      using ix by (auto simp: indexable_JObj list_all_iff)
    from kc have "Suc (nesting (snd kc)) \<le> nesting (JObj kvs)"
      using nesting_child[of kc "JObj kvs"] by simp
    with depth d have nv: "nesting (snd kc) < d" by simp
    have "\<forall>kc'\<in>set (children (snd kc)). \<forall>key. getPropertyPaths d (JObj [(key, snd kc')])
        = Some (Inr (JObj [(key, JArr (shapeIndex (snd kc')))]))"
    proof (intro ballI allI)
      fix kc' key
      assume kc': "kc' \<in> set (children (snd kc))"
      then have "indexable (snd kc')"
        using ixv by (auto simp: indexable_unfold[of "snd kc"] list_all_iff)
      moreover have "nesting (snd kc') < d"
        using nesting_child[OF kc'] nv by simp
      ultimately show "getPropertyPaths d (JObj [(key, snd kc')])
          = Some (Inr (JObj [(key, JArr (shapeIndex (snd kc')))]))"
        by (rule getPropertyPaths_entry)
    qed
    with ixv show "pathsArrayOf (getPropertyPaths d) (snd kc) = Some (Inr (shapeIndex (snd kc)))"
      by (rule pathsArrayOf_shape)
  qed
  moreover have "distinct (map fst [] @ map fst kvs)"
    using ix by (simp add: indexable_JObj)
  ultimately have "propertyLoop (getPropertyPaths d) [] kvs
      = Some (Inr (JObj ([] @ map (\<lambda>kc. (fst kc, JArr (shapeIndex (snd kc)))) kvs)))"
    by (intro propertyLoop_shape)
  with d show ?thesis
    by (simp add: indexOf_def)
qed

subsection \<open>More depth does not change the result\<close>

lemma arrayLoop_mono:
  assumes "\<And>y r. self y = Some r \<Longrightarrow> self' y = Some r"
  shows "arrayLoop self acc i xs = Some res \<Longrightarrow> arrayLoop self' acc i xs = Some res"
proof (induction xs arbitrary: acc i)
  case Nil
  then show ?case by simp
next
  case (Cons x xs)
  then show ?case
    using assms by (auto split: sum.splits option.splits if_splits)
qed

lemma objectLoop_mono:
  assumes "\<And>y r. self y = Some r \<Longrightarrow> self' y = Some r"
  shows "objectLoop self acc kvs = Some res \<Longrightarrow> objectLoop self' acc kvs = Some res"
proof (induction kvs arbitrary: acc)
  case Nil
  then show ?case by simp
next
  case (Cons kv kvs)
  then show ?case
    using assms by (cases kv) (auto split: sum.splits option.splits)
qed

lemma pathsArrayOf_mono:
  assumes "\<And>y r. self y = Some r \<Longrightarrow> self' y = Some r"
  shows "pathsArrayOf self v = Some res \<Longrightarrow> pathsArrayOf self' v = Some res"
  using arrayLoop_mono[OF assms] objectLoop_mono[OF assms]
  by (auto simp: pathsArrayOf_def split: jsval.splits)

lemma propertyLoop_pathsArrayOf:
  "propertyLoop self pathsObject ((pKey, pValue) # rest) =
     (case pathsArrayOf self pValue of
        None \<Rightarrow> None
      | Some (Inl e) \<Rightarrow> Some (Inl e)
      | Some (Inr pathsArray) \<Rightarrow>
          propertyLoop self (addObjectProperty pathsObject pKey (JArr pathsArray)) rest)"
  by (simp add: pathsArrayOf_def)

lemma propertyLoop_mono:
  assumes "\<And>y r. self y = Some r \<Longrightarrow> self' y = Some r"
  shows "propertyLoop self acc kvs = Some res \<Longrightarrow> propertyLoop self' acc kvs = Some res"
proof (induction kvs arbitrary: acc)
  case Nil
  then show ?case by simp
next
  case (Cons kv kvs)
  obtain k v where kv: "kv = (k, v)" by (cases kv)
  from Cons.prems obtain pa where pa: "pathsArrayOf self v = Some pa"
    unfolding kv propertyLoop_pathsArrayOf by (auto split: option.splits)
  then have pa': "pathsArrayOf self' v = Some pa"
    by (rule pathsArrayOf_mono[of self self', rotated]) (rule assms)
  show ?case
  proof (cases pa)
    case (Inl e)
    with Cons.prems pa pa' show ?thesis
      unfolding kv propertyLoop_pathsArrayOf by simp
  next
    case (Inr pathsArray)
    with Cons.prems pa have "propertyLoop self (addObjectProperty acc k (JArr pathsArray)) kvs = Some res"
      unfolding kv propertyLoop_pathsArrayOf by simp
    then have "propertyLoop self' (addObjectProperty acc k (JArr pathsArray)) kvs = Some res"
      by (rule Cons.IH)
    with Inr pa' show ?thesis
      unfolding kv propertyLoop_pathsArrayOf by simp
  qed
qed

lemma getPropertyPaths_Suc:
  "getPropertyPaths depth obj = Some res \<Longrightarrow> getPropertyPaths (Suc depth) obj = Some res"
proof (induction depth arbitrary: obj res)
  case 0
  then show ?case by simp
next
  case (Suc depth)
  show ?case
  proof (cases "objectEntries obj")
    case (Inl e)
    with Suc.prems show ?thesis by simp
  next
    case (Inr kvs)
    with Suc.prems have "propertyLoop (getPropertyPaths depth) [] kvs = Some res"
      by simp
    then have "propertyLoop (getPropertyPaths (Suc depth)) [] kvs = Some res"
      using Suc.IH by (rule propertyLoop_mono[rotated])
    with Inr show ?thesis by simp
  qed
qed

lemma getPropertyPaths_mono:
  "depth \<le> depth' \<Longrightarrow> getPropertyPaths depth obj = Some res \<Longrightarrow>
   getPropertyPaths depth' obj = Some res"
  by (induction depth' rule: nat_induct_at_least[of depth]) (auto dest: getPropertyPaths_Suc) 

lemma getPropertyPaths_unique:
  assumes ix: "indexable (JObj kvs)"
    and r: "getPropertyPaths depth (JObj kvs) = Some (Inr idx)"
  shows "idx = indexOf kvs"
proof -
  have "getPropertyPaths (max depth (Suc (nesting (JObj kvs)))) (JObj kvs) = Some (Inr idx)"
    using r by (rule getPropertyPaths_mono[rotated]) simp
  moreover have "getPropertyPaths (max depth (Suc (nesting (JObj kvs)))) (JObj kvs)
      = Some (Inr (indexOf kvs))"
    using ix by (rule getPropertyPaths_record) simp
  ultimately show ?thesis by simp
qed

lemma indexable_paths_resolve:
  assumes ix: "indexable (JObj kvs)"
    and co: "tokenCoercion tokenFinite tokenLess"
  shows "(\<exists>idx. \<forall>depth > nesting (JObj kvs). getPropertyPaths depth (JObj kvs) = Some (Inr idx))
    \<and> (\<forall>depth idx path.
          getPropertyPaths depth (JObj kvs) = Some (Inr idx) \<and> pathInIndex idx path \<longrightarrow>
          (\<exists>item target.
             createAttribute (JObj kvs) = JObj [(''M'', item)]
             \<and> descend (JObj kvs) path = Some target
             \<and> getAttributeAtPath tokenFinite tokenLess item (JArr (map JStr path)) JUndef
                 = Inr (createAttribute target)
             \<and> createAttribute target \<noteq> JBool False))"
proof (intro conjI allI impI)
  show "\<exists>idx. \<forall>depth > nesting (JObj kvs). getPropertyPaths depth (JObj kvs) = Some (Inr idx)"
    using getPropertyPaths_record[OF ix] by blast
next
  fix depth idx path
  assume a: "getPropertyPaths depth (JObj kvs) = Some (Inr idx) \<and> pathInIndex idx path"
  then have idx: "idx = indexOf kvs"
    using getPropertyPaths_unique[OF ix] by blast
  from ix have "distinct (map fst kvs)" "list_all (\<lambda>kc. indexable (snd kc)) kvs"
    by (simp_all add: indexable_JObj)
  with a idx obtain t ts c target
    where p: "path = t # ts" "map_of kvs t = Some c" "descend c ts = Some target"
    using pathInIndex_descend[of kvs path] by blast
  then have d: "descend (JObj kvs) path = Some target" and ne: "path \<noteq> []"
    by simp_all
  from getAttributeAtPath_descend[OF co ix d ne] d createAttribute_not_false[of target]
  show "\<exists>item target.
      createAttribute (JObj kvs) = JObj [(''M'', item)]
      \<and> descend (JObj kvs) path = Some target
      \<and> getAttributeAtPath tokenFinite tokenLess item (JArr (map JStr path)) JUndef
          = Inr (createAttribute target)
      \<and> createAttribute target \<noteq> JBool False"
    by blast
qed

subsection \<open>List elements that cannot be indexed\<close>

text \<open>
  A \<^verbatim>\<open>null\<close> in a list raises a TypeError, at every depth that reaches it. A list
  element with a list under its key \<open>1\<close>, as in \<open>{k: [{1: ws}]}\<close>, yields no index
  at any depth: the function is called on the index of the element, which has the
  same form again.
\<close>

lemma getPropertyPaths_single_form:
  "getPropertyPaths depth (JObj [(k, v)]) = Some (Inr r) \<Longrightarrow> \<exists>pa. r = JObj [(k, JArr pa)]"
  by (cases depth) (auto split: option.splits sum.splits jsval.splits)

lemma getPropertyPaths_null_element:
  "getPropertyPaths (Suc (Suc depth)) (JObj [(k, JArr [JNull])]) = Some (Inl TypeError)"
  by simp

lemma getPropertyPaths_never_returns:
  "getPropertyPaths depth (JObj [(k, JArr [JObj [(''1'', JArr ws)]])]) \<noteq> Some (Inr r)"
proof (induction depth arbitrary: k ws r rule: less_induct)
  case (less depth)
  show ?case
  proof (cases depth)
    case 0
    then show ?thesis by simp
  next
    case (Suc d)
    show ?thesis
    proof (cases d)
      case 0
      with Suc show ?thesis by simp
    next
      case d: (Suc d2)
      have bad: "\<And>k ws r. getPropertyPaths d2 (JObj [(k, JArr [JObj [(''1'', JArr ws)]])]) \<noteq> Some (Inr r)"
        using less.IH[of d2] Suc d by simp
      show ?thesis
      proof
        assume ret: "getPropertyPaths depth (JObj [(k, JArr [JObj [(''1'', JArr ws)]])]) = Some (Inr r)"
        then obtain sub where sub:
          "getPropertyPaths d (JObj [(''0'', JObj [(''1'', JArr ws)])]) = Some (Inr sub)"
          and second: "getPropertyPaths d (JObj [(''0'', sub)]) \<noteq> None
            \<and> (\<forall>e. getPropertyPaths d (JObj [(''0'', sub)]) \<noteq> Some (Inl e))"
          unfolding Suc
          by (auto simp: natToString.simps[of 0] split: option.splits sum.splits)
        from sub obtain r1 where r1:
          "getPropertyPaths d2 (JObj [(''1'', JArr ws)]) = Some (Inr r1)"
          "sub = JObj [(''0'', JArr [r1])]"
          unfolding d by (auto split: option.splits sum.splits)
        from r1(1) obtain pa where pa: "r1 = JObj [(''1'', JArr pa)]"
          using getPropertyPaths_single_form by blast
        from second obtain r2 where
          "getPropertyPaths d2 (JObj [(''0'', JArr [r1])]) = Some (Inr r2)"
          unfolding d r1(2) by (auto split: option.splits sum.splits)
        with pa bad show False by simp
      qed
    qed
  qed
qed

subsection \<open>Only indexable lists are indexed\<close>

text \<open>
  Whenever \<open>getPropertyPaths\<close> returns an index, no element of a list of the value is
  \<^verbatim>\<open>null\<close> or \<^verbatim>\<open>undefined\<close>, and none has a list or a map as its property \<open>1\<close>.
\<close>

lemma arrayLoop_result:
  "arrayLoop self acc i xs = Some (Inr res) \<Longrightarrow>
   \<exists>rs. res = acc @ rs \<and> length rs = length xs
     \<and> (\<forall>j<length xs. elementIndexed self (i + j) (xs ! j) (rs ! j))"
proof (induction xs arbitrary: acc i)
  case Nil
  then show ?case by simp
next
  case (Cons x xs)
  from Cons.prems obtain p1 sub r where h:
    "getProperty x ''1'' = Inr p1"
    "if isObject p1 then self (JObj [(natToString i, x)]) = Some (Inr sub) else sub = x"
    "self (JObj [(natToString i, sub)]) = Some (Inr r)"
    "arrayLoop self (acc @ [r]) (Suc i) xs = Some (Inr res)"
    by (auto split: sum.splits option.splits if_splits)
  then have first: "elementIndexed self i x r"
    unfolding elementIndexed_def by blast
  from Cons.IH[OF h(4)] obtain rs where rs:
    "res = (acc @ [r]) @ rs" "length rs = length xs"
    "\<forall>j<length xs. elementIndexed self (Suc i + j) (xs ! j) (rs ! j)"
    by blast
  show ?case
  proof (intro exI[of _ "r # rs"] conjI allI impI)
    show "res = acc @ r # rs" using rs(1) by simp
    show "length (r # rs) = length (x # xs)" using rs(2) by simp
    fix j
    assume "j < length (x # xs)"
    then show "elementIndexed self (i + j) ((x # xs) ! j) ((r # rs) ! j)"
      using first rs(3) by (cases j) auto
  qed
qed

lemma objectLoop_result:
  "objectLoop self acc kvs = Some (Inr res) \<Longrightarrow>
   \<exists>rs. res = acc @ rs \<and> length rs = length kvs
     \<and> (\<forall>j<length kvs. self (JObj [(fst (kvs ! j), snd (kvs ! j))]) = Some (Inr (rs ! j)))"
proof (induction kvs arbitrary: acc)
  case Nil
  then show ?case by simp
next
  case (Cons kv kvs)
  obtain k v where kv: "kv = (k, v)" by (cases kv)
  from Cons.prems kv obtain r where h:
    "self (JObj [(k, v)]) = Some (Inr r)"
    "objectLoop self (acc @ [r]) kvs = Some (Inr res)"
    by (auto split: sum.splits option.splits)
  from Cons.IH[OF h(2)] obtain rs where rs:
    "res = (acc @ [r]) @ rs" "length rs = length kvs"
    "\<forall>j<length kvs. self (JObj [(fst (kvs ! j), snd (kvs ! j))]) = Some (Inr (rs ! j))"
    by blast
  show ?case
  proof (intro exI[of _ "r # rs"] conjI allI impI)
    show "res = acc @ r # rs" using rs(1) by simp
    show "length (r # rs) = length (kv # kvs)" using rs(2) by simp
    fix j
    assume "j < length (kv # kvs)"
    then show "self (JObj [(fst ((kv # kvs) ! j), snd ((kv # kvs) ! j))]) = Some (Inr ((r # rs) ! j))"
      using h(1) rs(3) kv by (cases j) auto
  qed
qed

lemma getPropertyPaths_single:
  "getPropertyPaths depth (JObj [(k, v)]) = Some (Inr r) \<Longrightarrow>
   \<exists>d pa. depth = Suc d \<and> pathsArrayOf (getPropertyPaths d) v = Some (Inr pa)
     \<and> r = JObj [(k, JArr pa)]"
  by (cases depth) (auto simp: pathsArrayOf_def split: option.splits sum.splits)

lemma natToString_1: "natToString (Suc 0) = ''1''"
  by (simp add: natToString.simps[of "Suc 0"])

lemma step_one_in_pathsArray:
  assumes p1: "getProperty x ''1'' = Inr p1" "isObject p1"
    and pa: "pathsArrayOf self x = Some (Inr X)"
    and form: "\<And>k v r. self (JObj [(k, v)]) = Some (Inr r) \<Longrightarrow> \<exists>pa. r = JObj [(k, JArr pa)]"
  shows "\<exists>j Z. j < length X \<and> X ! j = JObj [(''1'', JArr Z)]"
proof (cases x)
  case (JArr xs)
  from p1 JArr have m: "map_of (arrayEntries xs) ''1'' = Some p1"
    by (auto simp: map_add_def split: option.splits if_splits)
  then obtain i where i: "i < length xs" "''1'' = natToString i"
    by (auto simp: map_of_arrayEntries)
  then have "i = 1"
    using natToString_inj[of i "Suc 0"] natToString_1 by simp
  with i have len: "1 < length xs" by simp
  from pa JArr obtain rs where rs: "X = [] @ rs" "length rs = length xs"
    "\<forall>j<length xs. elementIndexed self (0 + j) (xs ! j) (rs ! j)"
    using arrayLoop_result[of self "[]" 0 xs X] by (auto simp: pathsArrayOf_def)
  from rs(3) len have "elementIndexed self 1 (xs ! 1) (rs ! 1)"
    by (metis add_0)
  then obtain sub where "self (JObj [(natToString 1, sub)]) = Some (Inr (rs ! 1))"
    unfolding elementIndexed_def by blast
  then obtain Z where "rs ! 1 = JObj [(''1'', JArr Z)]"
    using form natToString_1 by fastforce
  with rs(1,2) len show ?thesis by auto
next
  case (JObj kvs)
  from p1 JObj have "map_of kvs ''1'' = Some p1"
    by (auto split: option.splits)
  then have "(''1'', p1) \<in> set kvs"
    by (rule map_of_SomeD)
  then obtain j where j: "j < length kvs" "kvs ! j = (''1'', p1)"
    by (auto simp: in_set_conv_nth)
  from pa JObj obtain rs where rs: "X = [] @ rs" "length rs = length kvs"
    "\<forall>j<length kvs. self (JObj [(fst (kvs ! j), snd (kvs ! j))]) = Some (Inr (rs ! j))"
    using objectLoop_result[of self "[]" kvs X] by (auto simp: pathsArrayOf_def)
  from rs(3) j have "self (JObj [(''1'', p1)]) = Some (Inr (rs ! j))"
    by fastforce
  then obtain Z where "rs ! j = JObj [(''1'', JArr Z)]"
    using form by blast
  with rs(1,2) j(1) show ?thesis by auto
next
  case (JStr s)
  with p1 show ?thesis
    by (auto simp: arrayEntries_def map_add_def split: option.splits dest!: map_of_SomeD set_zip_rightD)
qed (use p1 in auto)

lemma objectLoop_single:
  "objectLoop self [] [(k, v)] = Some (Inr res) \<Longrightarrow> \<exists>r. self (JObj [(k, v)]) = Some (Inr r) \<and> res = [r]"
  by (auto split: option.splits sum.splits)

lemma trigger_never_returns:
  assumes p1: "getProperty x ''1'' = Inr p1" "isObject p1"
    and first: "getPropertyPaths d (JObj [(i, x)]) = Some (Inr sub)"
    and second: "getPropertyPaths d (JObj [(i, sub)]) = Some (Inr r)"
  shows False
proof -
  from getPropertyPaths_single[OF first] obtain d0 X where d0: "d = Suc d0"
    "pathsArrayOf (getPropertyPaths d0) x = Some (Inr X)" "sub = JObj [(i, JArr X)]"
    by blast
  have "\<exists>j Z. j < length X \<and> X ! j = JObj [(''1'', JArr Z)]"
    using p1 d0(2) getPropertyPaths_single_form by (rule step_one_in_pathsArray)
  then obtain j Z where j: "j < length X" "X ! j = JObj [(''1'', JArr Z)]"
    by blast
  from getPropertyPaths_single[OF second] d0 obtain pa where
    "pathsArrayOf (getPropertyPaths d0) (JObj [(i, JArr X)]) = Some (Inr pa)"
    by auto
  then obtain r2 where r2: "getPropertyPaths d0 (JObj [(i, JArr X)]) = Some (Inr r2)"
    using objectLoop_single by (fastforce simp: pathsArrayOf_def)
  from getPropertyPaths_single[OF r2] obtain d1 pa1 where d1: "d0 = Suc d1"
    "pathsArrayOf (getPropertyPaths d1) (JArr X) = Some (Inr pa1)"
    by blast
  then obtain rs where "\<forall>j<length X. elementIndexed (getPropertyPaths d1) (0 + j) (X ! j) (rs ! j)"
    using arrayLoop_result[of "getPropertyPaths d1" "[]" 0 X pa1] by (auto simp: pathsArrayOf_def)
  with j(1) have "elementIndexed (getPropertyPaths d1) j (X ! j) (rs ! j)"
    by (metis add_0)
  then obtain sub' where sub':
    "getPropertyPaths d1 (JObj [(natToString j, JObj [(''1'', JArr Z)])]) = Some (Inr sub')"
    "getPropertyPaths d1 (JObj [(natToString j, sub')]) = Some (Inr (rs ! j))"
    unfolding elementIndexed_def j(2) by auto
  from getPropertyPaths_single[OF sub'(1)] obtain d2 pa2 where d2: "d1 = Suc d2"
    "pathsArrayOf (getPropertyPaths d2) (JObj [(''1'', JArr Z)]) = Some (Inr pa2)"
    "sub' = JObj [(natToString j, JArr pa2)]"
    by blast
  from d2(2) obtain r1 where r1: "getPropertyPaths d2 (JObj [(''1'', JArr Z)]) = Some (Inr r1)"
    "pa2 = [r1]"
    using objectLoop_single by (fastforce simp: pathsArrayOf_def)
  from r1(1) obtain Z' where Z': "r1 = JObj [(''1'', JArr Z')]"
    using getPropertyPaths_single_form by blast
  from getPropertyPaths_single[OF sub'(2)] d2(1) obtain pa3 where
    "pathsArrayOf (getPropertyPaths d2) sub' = Some (Inr pa3)"
    by auto
  then obtain r3 where
    "getPropertyPaths d2 (JObj [(natToString j, JArr [JObj [(''1'', JArr Z')]])]) = Some (Inr r3)"
    unfolding d2(3) r1(2) Z' using objectLoop_single by (fastforce simp: pathsArrayOf_def)
  then show False
    using getPropertyPaths_never_returns by blast
qed

lemma listsIndexable_unfold_JArr:
  "listsIndexable (JArr xs) =
     (list_all (\<lambda>x. case getProperty x ''1'' of Inl e \<Rightarrow> False | Inr p1 \<Rightarrow> \<not> isObject p1) xs
      \<and> list_all listsIndexable xs)"
proof -
  have "map snd (arrayEntries xs) = xs"
    by (simp add: arrayEntries_def)
  then have "list_all listsIndexable (map snd (arrayEntries xs)) = list_all listsIndexable xs"
    by simp
  then have "list_all (\<lambda>kc. listsIndexable (snd kc)) (arrayEntries xs) = list_all listsIndexable xs"
    by (simp add: list_all_iff)
  then show ?thesis
    by (simp add: listsIndexable.simps[of "JArr xs"])
qed

lemma getPropertyPaths_entry_indexable:
  "getPropertyPaths depth (JObj [(k, v)]) = Some (Inr r) \<Longrightarrow> listsIndexable v"
proof (induction v arbitrary: depth k r rule: shapeIndex.induct)
  case (1 v)
  from getPropertyPaths_single[OF "1.prems"] obtain d pa where d: "depth = Suc d"
    "pathsArrayOf (getPropertyPaths d) v = Some (Inr pa)"
    by blast
  show ?case
  proof (cases v)
    case (JArr xs)
    from d(2) JArr obtain rs where
      rs: "\<forall>j<length xs. elementIndexed (getPropertyPaths d) (0 + j) (xs ! j) (rs ! j)"
      using arrayLoop_result[of "getPropertyPaths d" "[]" 0 xs pa] by (auto simp: pathsArrayOf_def)
    have "\<forall>j<length xs.
        (case getProperty (xs ! j) ''1'' of Inl e \<Rightarrow> False | Inr p1 \<Rightarrow> \<not> isObject p1)
        \<and> listsIndexable (xs ! j)"
    proof (intro allI impI)
      fix j
      assume j: "j < length xs"
      with rs have "elementIndexed (getPropertyPaths d) j (xs ! j) (rs ! j)"
        by (metis add_0)
      then obtain p1 sub where e: "getProperty (xs ! j) ''1'' = Inr p1"
        "if isObject p1 then getPropertyPaths d (JObj [(natToString j, xs ! j)]) = Some (Inr sub)
         else sub = xs ! j"
        "getPropertyPaths d (JObj [(natToString j, sub)]) = Some (Inr (rs ! j))"
        unfolding elementIndexed_def by blast
      have no: "\<not> isObject p1"
      proof
        assume "isObject p1"
        with e show False
          using trigger_never_returns[of "xs ! j" p1 d "natToString j" sub "rs ! j"] by simp
      qed
      with e have ret: "getPropertyPaths d (JObj [(natToString j, xs ! j)]) = Some (Inr (rs ! j))"
        by simp
      have "map_of (arrayEntries xs) (natToString j) = Some (xs ! j)"
        using j map_of_arrayEntries[of xs "natToString j" "xs ! j"] by blast
      then have "(natToString j, xs ! j) \<in> set (arrayEntries xs)"
        by (rule map_of_SomeD)
      then have "(natToString j, xs ! j) \<in> set (children v)"
        using JArr by simp
      then have "listsIndexable (snd (natToString j, xs ! j))"
        using ret by (intro "1.IH"[of "(natToString j, xs ! j)" d "natToString j" "rs ! j"]) simp_all
      with e(1) no show "(case getProperty (xs ! j) ''1'' of Inl e \<Rightarrow> False | Inr p1 \<Rightarrow> \<not> isObject p1)
          \<and> listsIndexable (xs ! j)"
        by simp
    qed
    then show ?thesis
      unfolding JArr listsIndexable_unfold_JArr by (auto simp: list_all_length)
  next
    case (JObj kvs)
    from d(2) JObj obtain rs where
      rs: "\<forall>j<length kvs. getPropertyPaths d (JObj [(fst (kvs ! j), snd (kvs ! j))]) = Some (Inr (rs ! j))"
      using objectLoop_result[of "getPropertyPaths d" "[]" kvs pa] by (auto simp: pathsArrayOf_def)
    have "\<forall>j<length kvs. listsIndexable (snd (kvs ! j))"
    proof (intro allI impI)
      fix j
      assume j: "j < length kvs"
      then have "kvs ! j \<in> set (children v)"
        using JObj by simp
      moreover from rs j
      have "getPropertyPaths d (JObj [(fst (kvs ! j), snd (kvs ! j))]) = Some (Inr (rs ! j))"
        by blast
      ultimately show "listsIndexable (snd (kvs ! j))"
        by (intro "1.IH"[of "kvs ! j" d "fst (kvs ! j)" "rs ! j"])
    qed
    then show ?thesis
      unfolding JObj by (simp add: listsIndexable.simps[of "JObj kvs"] list_all_length)
  qed (simp_all add: listsIndexable.simps[of JUndef] listsIndexable.simps[of JNull]
      listsIndexable.simps[of "JBool b" for b] listsIndexable.simps[of "JNum n" for n]
      listsIndexable.simps[of "JStr s" for s])
qed

lemma propertyLoop_each:
  "propertyLoop self acc kvs = Some (Inr res) \<Longrightarrow>
   \<forall>kv\<in>set kvs. \<exists>pa. pathsArrayOf self (snd kv) = Some (Inr pa)"
proof (induction kvs arbitrary: acc)
  case Nil
  then show ?case by simp
next
  case (Cons kv kvs)
  obtain k v where kv: "kv = (k, v)" by (cases kv)
  from Cons.prems obtain pa where pa: "pathsArrayOf self v = Some (Inr pa)"
    "propertyLoop self (addObjectProperty acc k (JArr pa)) kvs = Some (Inr res)"
    unfolding kv propertyLoop_pathsArrayOf by (auto split: option.splits sum.splits)
  from Cons.IH[OF pa(2)] pa(1) kv show ?case by simp
qed

lemma getPropertyPaths_record_indexable:
  assumes "getPropertyPaths depth (JObj kvs) = Some (Inr idx)"
  shows "listsIndexable (JObj kvs)"
proof -
  from assms obtain d where d: "depth = Suc d"
    "propertyLoop (getPropertyPaths d) [] kvs = Some (Inr idx)"
    by (cases depth) auto
  have "\<forall>kv\<in>set kvs. listsIndexable (snd kv)"
  proof
    fix kv
    assume "kv \<in> set kvs"
    with propertyLoop_each[OF d(2)] obtain pa
      where "pathsArrayOf (getPropertyPaths d) (snd kv) = Some (Inr pa)"
      by blast
    moreover obtain k v where kv: "kv = (k, v)"
      by (cases kv)
    ultimately have "getPropertyPaths (Suc d) (JObj [(k, v)]) = Some (Inr (JObj [(k, JArr pa)]))"
      by (simp add: pathsArrayOf_def)
    then have "listsIndexable v"
      by (rule getPropertyPaths_entry_indexable)
    with kv show "listsIndexable (snd kv)"
      by simp
  qed
  then show ?thesis
    by (simp add: listsIndexable.simps[of "JObj kvs"] list_all_iff)
qed

subsection \<open>The round trip\<close>

lemma indexable_scalar:
  "indexable JUndef" "indexable JNull" "indexable (JBool b)" "indexable (JNum n)"
  "indexable (JStr s)"
  by (simp_all add: indexable_unfold[of JUndef] indexable_unfold[of JNull]
      indexable_unfold[of "JBool b"] indexable_unfold[of "JNum n"] indexable_unfold[of "JStr s"])

lemma tokenCoercion_decimal: "tokenCoercion decimalFinite decimalLess"
  by (simp add: tokenCoercion_def decimal_coercion)

text \<open>
  \<open>getPropertyPaths\<close> returns an index, the same at every depth above the nesting of
  the record, for a record whose lists it can index; by
  \<open>getPropertyPaths_record_indexable\<close> it returns one for no other record.
\<close>

lemma getPropertyPaths_returns_index:
  assumes "plainKeys (JObj kvs)" and "listsIndexable (JObj kvs)"
  shows "\<exists>idx. \<forall>depth > nesting (JObj kvs). getPropertyPaths depth (JObj kvs) = Some (Inr idx)"
proof -
  from assms have "indexable (JObj kvs)"
    by (simp add: indexable_def)
  then show ?thesis
    using getPropertyPaths_record by blast
qed

text \<open>
  Claim C5, as the code has it. \<open>getAttributeAtPath\<close> takes an item, the map of
  attribute names to attributes, which is what \<open>createAttribute\<close> puts under \<open>M\<close> for
  a record. For a record whose maps have no key \<open>hasOwnProperty\<close> and every path
  present in the index that \<open>getPropertyPaths\<close> returns for it: the path leads to a
  value of the record, and \<open>getAttributeAtPath\<close> on the item under \<open>M\<close> of the encoded
  record succeeds: it returns the attribute encoded from that value, which is not
  \<^verbatim>\<open>false\<close>.
\<close>

theorem index_paths_resolve_on_item:
  assumes keys: "plainKeys (JObj kvs)"
    and co: "tokenCoercion tokenFinite tokenLess"
    and r: "getPropertyPaths depth (JObj kvs) = Some (Inr idx)"
    and p: "pathInIndex idx path"
  shows "\<exists>item target.
      createAttribute (JObj kvs) = JObj [(''M'', item)]
      \<and> descend (JObj kvs) path = Some target
      \<and> getAttributeAtPath tokenFinite tokenLess item (JArr (map JStr path)) JUndef
          = Inr (createAttribute target)
      \<and> createAttribute target \<noteq> JBool False"
proof -
  from r have "listsIndexable (JObj kvs)"
    by (rule getPropertyPaths_record_indexable)
  with keys have "indexable (JObj kvs)"
    by (simp add: indexable_def)
  from indexable_paths_resolve[OF this co, THEN conjunct2, rule_format, OF conjI, OF r p]
  show ?thesis .
qed

theorem index_paths_resolve_on_item_witness:
  "plainKeys (JObj [(''a'', JStr ''x''), (''b'', JArr [JNum (Dec False 1 0), JObj [(''c'', JBool True)]])])
   \<and> tokenCoercion decimalFinite decimalLess
   \<and> getPropertyPaths 4 (JObj [(''a'', JStr ''x''), (''b'', JArr [JNum (Dec False 1 0), JObj [(''c'', JBool True)]])])
       = Some (Inr (JObj [(''a'', JArr []),
            (''b'', JArr [JObj [(''0'', JArr [])], JObj [(''1'', JArr [JObj [(''c'', JArr [])]])]])]))
   \<and> pathInIndex (JObj [(''a'', JArr []),
            (''b'', JArr [JObj [(''0'', JArr [])], JObj [(''1'', JArr [JObj [(''c'', JArr [])]])]])])
         [''b'', ''1'', ''c'']
   \<and> createAttribute (JObj [(''a'', JStr ''x''), (''b'', JArr [JNum (Dec False 1 0), JObj [(''c'', JBool True)]])])
       = JObj [(''M'', JObj [(''a'', JObj [(''S'', JStr ''x'')]),
            (''b'', JObj [(''L'', JArr [JObj [(''N'', JStr ''1'')],
               JObj [(''M'', JObj [(''c'', JObj [(''BOOL'', JBool True)])])]])])])]
   \<and> getAttributeAtPath decimalFinite decimalLess
         (JObj [(''a'', JObj [(''S'', JStr ''x'')]),
            (''b'', JObj [(''L'', JArr [JObj [(''N'', JStr ''1'')],
               JObj [(''M'', JObj [(''c'', JObj [(''BOOL'', JBool True)])])]])])])
         (JArr [JStr ''b'', JStr ''1'', JStr ''c'']) JUndef
       = Inr (JObj [(''BOOL'', JBool True)])"
  (is "?keys \<and> ?co \<and> ?gpp \<and> ?pin \<and> ?ca \<and> ?res")
proof -
  have n1: "natToString 0 = ''0''" "natToString 1 = ''1''" "natToString (Suc 0) = ''1''"
    by (simp_all add: natToString.simps)
  have "indexable (JObj [(''a'', JStr ''x''), (''b'', JArr [JNum (Dec False 1 0), JObj [(''c'', JBool True)]])])"
    by (simp add: indexable_JObj indexable_JArr indexable_scalar)
  then have keys: ?keys
    by (simp add: indexable_def)
  have co: ?co
    by (rule tokenCoercion_decimal)
  have gpp: ?gpp
    by (simp add: eval_nat_numeral n1)
  have pin: ?pin
    by simp
  have one: "numToString (Dec False (Suc 0) 0) = ''1''"
    by (simp add: numToString_def stripZeros.simps[of "Suc 0"] natToString.simps[of "Suc 0"])
  have ca: ?ca
    by (simp add: one trim_def isWhiteSpace_def)
  have d: "descend (JObj [(''a'', JStr ''x''), (''b'', JArr [JNum (Dec False 1 0), JObj [(''c'', JBool True)]])])
      [''b'', ''1'', ''c''] = Some (JBool True)"
    by (simp add: arrayEntries_def n1)
  from index_paths_resolve_on_item[OF keys co gpp pin]
  obtain item target where it:
    "createAttribute (JObj [(''a'', JStr ''x''), (''b'', JArr [JNum (Dec False 1 0), JObj [(''c'', JBool True)]])])
       = JObj [(''M'', item)]"
    "descend (JObj [(''a'', JStr ''x''), (''b'', JArr [JNum (Dec False 1 0), JObj [(''c'', JBool True)]])])
       [''b'', ''1'', ''c''] = Some target"
    "getAttributeAtPath decimalFinite decimalLess item (JArr (map JStr [''b'', ''1'', ''c''])) JUndef
       = Inr (createAttribute target)"
    by (elim exE conjE)
  from it(1) have item: "item = JObj [(''a'', JObj [(''S'', JStr ''x'')]),
            (''b'', JObj [(''L'', JArr [JObj [(''N'', JStr ''1'')],
               JObj [(''M'', JObj [(''c'', JObj [(''BOOL'', JBool True)])])]])])]"
    unfolding ca by simp
  from it(2) have target: "target = JBool True"
    unfolding d by simp
  from it(3) have res: ?res
    unfolding item target by simp
  from keys co gpp pin ca res show ?thesis by blast
qed

text \<open>
  Claim C5 as stated fails at the record \<open>{a: "x"}\<close> and the path \<open>a\<close> of its index:
  the encoded record is \<open>{M: {a: {S: "x"}}}\<close>, its only own property is \<open>M\<close>, and
  \<open>getAttributeAtPath\<close> returns \<^verbatim>\<open>false\<close> at its first check.
\<close>

theorem index_path_fails_on_encoded_record:
  "getPropertyPaths 2 (JObj [(''a'', JStr ''x'')]) = Some (Inr (JObj [(''a'', JArr [])]))
   \<and> pathInIndex (JObj [(''a'', JArr [])]) [''a'']
   \<and> createAttribute (JObj [(''a'', JStr ''x'')]) = JObj [(''M'', JObj [(''a'', JObj [(''S'', JStr ''x'')])])]
   \<and> (\<forall>tokenFinite tokenLess.
         getAttributeAtPath tokenFinite tokenLess (createAttribute (JObj [(''a'', JStr ''x'')]))
           (JArr [JStr ''a'']) JUndef = Inr (JBool False))"
  by (simp add: getAttributeAtPath_def trim_def isWhiteSpace_def eval_nat_numeral)

text \<open>
  A map with a key \<open>hasOwnProperty\<close> cannot be walked: in the item encoded from the
  record \<open>{hasOwnProperty: "x"}\<close> the own property shadows the method, and the call
  \<^verbatim>\<open>item.hasOwnProperty(localPath[0])\<close> of \<open>getAttributeAtPath\<close> raises.
\<close>

lemma getAttributeAtPath_shadowed_hasOwnProperty:
  "getPropertyPaths 2 (JObj [(''hasOwnProperty'', JStr ''x'')])
     = Some (Inr (JObj [(''hasOwnProperty'', JArr [])]))
   \<and> pathInIndex (JObj [(''hasOwnProperty'', JArr [])]) [''hasOwnProperty'']
   \<and> createAttribute (JObj [(''hasOwnProperty'', JStr ''x'')])
       = JObj [(''M'', JObj [(''hasOwnProperty'', JObj [(''S'', JStr ''x'')])])]
   \<and> getAttributeAtPath tokenFinite tokenLess (JObj [(''hasOwnProperty'', JObj [(''S'', JStr ''x'')])])
         (JArr [JStr ''hasOwnProperty'']) JUndef = Inl TypeError"
  by (simp add: eval_nat_numeral trim_def isWhiteSpace_def getAttributeAtPath_def)

end
